theory Spec2Isabelle
  imports Complex_Main "HOL-Library.AList" "HOL-Library.Sublist"
begin

section \<open>The keeper of \<^verbatim>\<open>src/src/keeper.js\<close>\<close>

subsection \<open>Data\<close>

text \<open>
  An entry of the index \<^verbatim>\<open>this.positions\<close> is the object literal
  \<^verbatim>\<open>{ id, event, account, size }\<close> of \<^verbatim>\<open>updateIndex\<close>. The position id is a
  \<^verbatim>\<open>BigNumber\<close> holding an unsigned integer, the size a \<^verbatim>\<open>BigNumber\<close> holding a
  signed one. The field names carry the prefix \<open>pos_\<close> because \<open>id\<close> and \<open>size\<close> are
  constants of HOL.
\<close>

record position =
  pos_id :: nat
  pos_event :: string
  pos_account :: string
  pos_size :: int

text \<open>
  Reading a property of an entry, as JavaScript does: the four properties of the literal
  are there, any other name reads \<^verbatim>\<open>undefined\<close> (here \<open>None\<close>).
\<close>

datatype js_value = BN int | Str string

definition position_property :: "position \<Rightarrow> string \<Rightarrow> js_value option" where
  "position_property p name =
     map_of [(''id'', BN (int (pos_id p))), (''event'', Str (pos_event p)),
             (''account'', Str (pos_account p)), (''size'', BN (pos_size p))] name"

text \<open>
  A thrown value is an error object: \<open>err_code\<close> is \<^verbatim>\<open>err.code\<close> (absent on a plain
  \<^verbatim>\<open>Error\<close>), \<open>err_text\<close> is \<^verbatim>\<open>err.toString()\<close>.
\<close>

record js_error =
  err_code :: "string option"
  err_text :: string

record tx =
  nonce :: nat

record receipt =
  blockNumber :: nat
  status :: nat
  transactionHash :: string
  gasUsed :: nat

text \<open>
  A decoded log of the market contract, \<^verbatim>\<open>{ event, args }\<close>. The handler reads
  \<^verbatim>\<open>id, account, size\<close> of a \<^verbatim>\<open>PositionModified\<close> and \<^verbatim>\<open>account, liquidator\<close> of a
  \<^verbatim>\<open>PositionLiquidated\<close>. \<open>OtherEvent\<close> is an event of any other name; the name is
  \<^verbatim>\<open>undefined\<close> (\<open>None\<close>) for a log the interface cannot decode.
\<close>

datatype chain_event =
    PositionModified nat string int
  | PositionLiquidated string string
  | FundingRecomputed
  | OtherEvent "string option"

text \<open>
  The calls of \<^verbatim>\<open>this.logger.log\<close>, one constructor for each call in the source, with
  the values its message and its component interpolate. A log entry is the level and
  the line.
\<close>

datatype log_line =
    MarketDeployed
  | RebuildingIndex nat
  | EventsToProcess nat
  | IndexBuildComplete
  | StartingKeeperLoop
  | ListeningForEvents
  | NewBlock nat
  | ProcessingBlock nat
  | ExchangeRatesEvent string
  | LogPositionModified nat string
  | LogPositionLiquidated string string
  | NoHandlerForEvent string
  | PositionsToKeep nat
  | Running string nat
  | TaskError string nat js_error
  | Done string nat
  | CannotLiquidateOrder nat
  | BeginLiquidatePosition nat
  | SubmitLiquidatePosition nat nat
  | FatalError js_error
  | DoneLiquidatePosition nat receipt

text \<open>
  The calls of the metrics module, each labelled with the market \<^verbatim>\<open>this.baseAsset\<close>:
  the gauge \<^verbatim>\<open>futuresOpenPositions.set\<close>, and the observations
  \<^verbatim>\<open>keeperErrors.observe\<close> and \<^verbatim>\<open>futuresLiquidations.observe\<close> (with its
  \<^verbatim>\<open>success\<close> label).
\<close>

datatype metric =
    FuturesOpenPositions "string option" nat
  | KeeperErrors "string option"
  | FuturesLiquidations "string option" bool

text \<open>
  The fields of a \<^verbatim>\<open>Keeper\<close>. \<open>positions\<close> is a JavaScript object keyed by account
  address: an association list in the order of the object's keys (an address is never
  an array index, so the keys are enumerated in the order they were created).
  \<open>activeKeeperTasks\<close> is an object whose only value is \<^verbatim>\<open>true\<close>, that is a set of
  ids; its keys are the ids' decimal strings, which are the ids themselves for
  unsigned integers. The calls of the logger and of the metrics module are recorded in
  \<open>logs\<close> and \<open>metrics\<close>.
\<close>

record keeper =
  positions :: "(string \<times> position) list"
  activeKeeperTasks :: "nat set"
  blockQueue :: "nat list"
  blockTip :: "nat option"
  baseAsset :: "string option"
  logs :: "(string \<times> log_line) list"
  metrics :: "metric list"

text \<open>The state the constructor leaves.\<close>

definition new_Keeper :: keeper where
  "new_Keeper =
     \<lparr>positions = [], activeKeeperTasks = {}, blockQueue = [], blockTip = None,
      baseAsset = None, logs = [], metrics = []\<rparr>"

text \<open>
  What the chain and the signer pool answer while one function of the keeper runs. Each
  is a promise that may reject (\<open>Inl\<close>). \<open>liquidatePosition\<close> is the call under
  \<^verbatim>\<open>signerPool.withSigner\<close> up to the transaction being sent, \<open>tx_wait\<close> is
  \<^verbatim>\<open>tx.wait(1)\<close>. \<open>exchangeRates_queryFilter\<close> gives the names of the events only, which
  is all the keeper reads of them.
\<close>

datatype block_tag = Latest | Block nat

record chain =
  baseAsset_call :: "js_error + string"
  queryFilter :: "nat \<Rightarrow> block_tag \<Rightarrow> js_error + chain_event list"
  exchangeRates_queryFilter :: "nat \<Rightarrow> block_tag \<Rightarrow> js_error + string option list"
  canLiquidate :: "string \<Rightarrow> js_error + bool"
  liquidatePosition :: "string \<Rightarrow> js_error + tx"
  tx_wait :: "tx \<Rightarrow> js_error + receipt"

text \<open>
  How an asynchronous function of the keeper ends: it returns, it throws (its promise
  rejects), or \<^verbatim>\<open>process.exit\<close> ends the process with a status. Each carries the
  keeper's state at that moment.
\<close>

datatype outcome = Returned keeper | Threw js_error keeper | Exited int keeper

definition logger_log :: "string \<Rightarrow> log_line \<Rightarrow> keeper \<Rightarrow> keeper" where
  "logger_log lvl line s = s\<lparr>logs := logs s @ [(lvl, line)]\<rparr>"

definition metrics_record :: "metric \<Rightarrow> keeper \<Rightarrow> keeper" where
  "metrics_record m s = s\<lparr>metrics := metrics s @ [m]\<rparr>"

subsection \<open>The indexer\<close>

text \<open>
  The body of the \<^verbatim>\<open>forEach\<close> of \<^verbatim>\<open>updateIndex\<close>. \<^verbatim>\<open>delete\<close> of a key that is not
  there does nothing; an assignment overwrites the value of a key in place and creates a
  new key last. \<^verbatim>\<open>!event\<close> holds of \<^verbatim>\<open>undefined\<close> and of the empty string.
\<close>

fun updateIndex_event :: "chain_event \<Rightarrow> keeper \<Rightarrow> keeper" where
  "updateIndex_event (PositionModified id' account size') s =
     (let s1 = logger_log ''info'' (LogPositionModified id' account) s in
      if size' = 0 then s1\<lparr>positions := AList.delete account (positions s1)\<rparr>
      else s1\<lparr>positions :=
        AList.update account
          \<lparr>pos_id = id', pos_event = ''PositionModified'', pos_account = account,
           pos_size = size'\<rparr>
          (positions s1)\<rparr>)"
| "updateIndex_event (PositionLiquidated account liquidator) s =
     (let s1 = logger_log ''info'' (LogPositionLiquidated account liquidator) s in
      s1\<lparr>positions := AList.delete account (positions s1)\<rparr>)"
| "updateIndex_event FundingRecomputed s = s"
| "updateIndex_event (OtherEvent event) s =
     (case event of
        None \<Rightarrow> s
      | Some name \<Rightarrow>
          if name = [] \<or> sublist ''OrderSubmitted'' name then s
          else logger_log ''info'' (NoHandlerForEvent name) s)"

definition updateIndex :: "chain_event list \<Rightarrow> keeper \<Rightarrow> keeper" where
  "updateIndex events s = fold updateIndex_event events s"

subsection \<open>The submitter\<close>

text \<open>
  \<^verbatim>\<open>liquidateOrder\<close>. The call of \<^verbatim>\<open>canLiquidate\<close> is outside the \<^verbatim>\<open>try\<close>: when it
  rejects, the error leaves the function as it is. The \<^verbatim>\<open>catch\<close> records the failed
  outcome first, then ends the process with status \<open>-1\<close> on the code
  \<^verbatim>\<open>NONCE_EXPIRED\<close> and throws the error again otherwise.
\<close>

definition liquidateOrder :: "chain \<Rightarrow> nat \<Rightarrow> string \<Rightarrow> keeper \<Rightarrow> outcome" where
  "liquidateOrder c id' account s =
     (case canLiquidate c account of
        Inl err \<Rightarrow> Threw err s
      | Inr canLiquidateOrder \<Rightarrow>
          if \<not> canLiquidateOrder
          then Returned (logger_log ''info'' (CannotLiquidateOrder id') s)
          else
            let s1 = logger_log ''info'' (BeginLiquidatePosition id') s;
                tried =
                  (case liquidatePosition c account of
                     Inl err \<Rightarrow> (Inl err, s1)
                   | Inr t \<Rightarrow>
                       let s2 = logger_log ''debug'' (SubmitLiquidatePosition id' (nonce t)) s1
                       in (case tx_wait c t of
                             Inl err \<Rightarrow> (Inl err, s2)
                           | Inr r \<Rightarrow> (Inr r, s2)))
            in (case tried of
                  (Inl err, s3) \<Rightarrow>
                    let s4 = metrics_record (FuturesLiquidations (baseAsset s3) False) s3
                    in if (case err_code err of
                             None \<Rightarrow> False
                           | Some code \<Rightarrow> code \<noteq> [] \<and> code = ''NONCE_EXPIRED'')
                       then Exited (- 1) (logger_log ''error'' (FatalError err) s4)
                       else Threw err s4
                | (Inr r, s3) \<Rightarrow>
                    Returned
                      (logger_log ''info'' (DoneLiquidatePosition id' r)
                        (metrics_record (FuturesLiquidations (baseAsset s3) True) s3))))"

subsection \<open>The scheduler\<close>

text \<open>
  \<^verbatim>\<open>runKeeperTask\<close>. The callback \<open>cb\<close> runs on the keeper's state and ends in an
  \<open>outcome\<close>. The \<^verbatim>\<open>catch\<close> takes every thrown error; nothing runs after
  \<^verbatim>\<open>process.exit\<close>.
\<close>

definition runKeeperTask ::
  "nat \<Rightarrow> string \<Rightarrow> (keeper \<Rightarrow> outcome) \<Rightarrow> keeper \<Rightarrow> outcome" where
  "runKeeperTask id' taskLabel cb s =
     (if id' \<in> activeKeeperTasks s then Returned s
      else
        let s1 = s\<lparr>activeKeeperTasks := insert id' (activeKeeperTasks s)\<rparr>;
            s2 = logger_log ''info'' (Running taskLabel id') s1
        in (case cb s2 of
              Exited status' s3 \<Rightarrow> Exited status' s3
            | Threw err s3 \<Rightarrow>
                let s4 = logger_log ''error'' (TaskError taskLabel id' err) s3;
                    s5 = metrics_record (KeeperErrors (baseAsset s4)) s4;
                    s6 = logger_log ''info'' (Done taskLabel id') s5
                in Returned (s6\<lparr>activeKeeperTasks := activeKeeperTasks s6 - {id'}\<rparr>)
            | Returned s3 \<Rightarrow>
                let s6 = logger_log ''info'' (Done taskLabel id') s3
                in Returned (s6\<lparr>activeKeeperTasks := activeKeeperTasks s6 - {id'}\<rparr>)))"

text \<open>
  The two halves of \<^verbatim>\<open>runKeeperTask\<close> around its \<^verbatim>\<open>await cb()\<close>, each of which runs
  without interruption: \<open>runKeeperTask_begin\<close> is the code up to the call of \<open>cb\<close>
  (\<open>None\<close> when the task is skipped), \<open>runKeeperTask_resume\<close> is the code after the
  promise of \<open>cb\<close> has settled, with the error it rejected with, if any.
\<close>

definition runKeeperTask_begin :: "nat \<Rightarrow> string \<Rightarrow> keeper \<Rightarrow> keeper option" where
  "runKeeperTask_begin id' taskLabel s =
     (if id' \<in> activeKeeperTasks s then None
      else
        let s1 = s\<lparr>activeKeeperTasks := insert id' (activeKeeperTasks s)\<rparr>
        in Some (logger_log ''info'' (Running taskLabel id') s1))"

definition runKeeperTask_resume ::
  "nat \<Rightarrow> string \<Rightarrow> js_error option \<Rightarrow> keeper \<Rightarrow> keeper" where
  "runKeeperTask_resume id' taskLabel thrown s3 =
     (let s5 =
        (case thrown of
           None \<Rightarrow> s3
         | Some err \<Rightarrow>
             let s4 = logger_log ''error'' (TaskError taskLabel id' err) s3
             in metrics_record (KeeperErrors (baseAsset s4)) s4);
          s6 = logger_log ''info'' (Done taskLabel id') s5
      in s6\<lparr>activeKeeperTasks := activeKeeperTasks s6 - {id'}\<rparr>)"

text \<open>
  \<^verbatim>\<open>runKeepers\<close>: the gauge, the log line, then the entries of the index one after the
  other, in the order of \<^verbatim>\<open>Object.values\<close>, which is taken once before the loop. An
  error thrown by \<^verbatim>\<open>runKeeperTask\<close> would leave the loop.
\<close>

fun runKeepers_loop :: "chain \<Rightarrow> position list \<Rightarrow> keeper \<Rightarrow> outcome" where
  "runKeepers_loop c [] s = Returned s"
| "runKeepers_loop c (p # ps) s =
     (case runKeeperTask (pos_id p) ''liquidation''
             (liquidateOrder c (pos_id p) (pos_account p)) s of
        Returned s' \<Rightarrow> runKeepers_loop c ps s'
      | Threw err s' \<Rightarrow> Threw err s'
      | Exited status' s' \<Rightarrow> Exited status' s')"

definition runKeepers :: "chain \<Rightarrow> keeper \<Rightarrow> outcome" where
  "runKeepers c s =
     (let numPositions = length (positions s);
          s1 = metrics_record (FuturesOpenPositions (baseAsset s) numPositions) s;
          s2 = logger_log ''info'' (PositionsToKeep numPositions) s1
      in runKeepers_loop c (map snd (positions s2)) s2)"

subsection \<open>The driver\<close>

text \<open>
  \<^verbatim>\<open>processNewBlock\<close>: the block's events of the market and of the exchange rates, the
  log lines, the index update and one pass of the scheduler.
\<close>

definition processNewBlock :: "chain \<Rightarrow> nat \<Rightarrow> keeper \<Rightarrow> outcome" where
  "processNewBlock c blockNumber' s =
     (let s1 = s\<lparr>blockTip := Some blockNumber'\<rparr> in
      case queryFilter c blockNumber' (Block blockNumber') of
        Inl err \<Rightarrow> Threw err s1
      | Inr events \<Rightarrow>
          (case exchangeRates_queryFilter c blockNumber' (Block blockNumber') of
             Inl err \<Rightarrow> Threw err s1
           | Inr exchangeRateEvents \<Rightarrow>
               let s2 = logger_log ''debug'' (ProcessingBlock blockNumber') s1;
                   s3 = fold (\<lambda>event. logger_log ''debug''
                               (ExchangeRatesEvent (case event of None \<Rightarrow> [] | Some n \<Rightarrow> n)))
                          (filter (\<lambda>event. event = Some ''RatesUpdated''
                                     \<or> event = Some ''RateDeleted'') exchangeRateEvents)
                          s2;
                   s4 = logger_log ''debug'' (EventsToProcess (length events)) s3
               in runKeepers c (updateIndex events s4)))"

text \<open>
  The handler of the provider's \<^verbatim>\<open>block\<close> event. \<^verbatim>\<open>!this.blockTip\<close> holds of
  \<^verbatim>\<open>null\<close> and of the number 0.
\<close>

definition onBlock :: "nat \<Rightarrow> keeper \<Rightarrow> keeper" where
  "onBlock blockNumber' s =
     (if blockTip s = None \<or> blockTip s = Some 0
      then s\<lparr>blockTip := Some blockNumber'\<rparr>
      else
        let s1 = logger_log ''debug'' (NewBlock blockNumber') s
        in s1\<lparr>blockQueue := blockQueue s1 @ [blockNumber']\<rparr>)"

text \<open>
  \<^verbatim>\<open>run\<close> up to the registration of the handler: the base asset, the events from
  \<open>fromBlock\<close> to the latest block, the index built from them, and a first pass of the
  scheduler.
\<close>

definition run_startup :: "chain \<Rightarrow> nat \<Rightarrow> keeper \<Rightarrow> outcome" where
  "run_startup c fromBlock s =
     (case baseAsset_call c of
        Inl err \<Rightarrow> Threw err s
      | Inr asset \<Rightarrow>
          let s1 = logger_log ''info'' MarketDeployed (s\<lparr>baseAsset := Some asset\<rparr>) in
          (case queryFilter c fromBlock Latest of
             Inl err \<Rightarrow> Threw err s1
           | Inr events \<Rightarrow>
               let s2 = logger_log ''info'' (RebuildingIndex fromBlock) s1;
                   s3 = logger_log ''info'' (EventsToProcess (length events)) s2;
                   s4 = updateIndex events s3;
                   s5 = logger_log ''info'' IndexBuildComplete s4;
                   s6 = logger_log ''info'' StartingKeeperLoop s5
               in (case runKeepers c s6 of
                     Returned s7 \<Rightarrow> Returned (logger_log ''info'' ListeningForEvents s7)
                   | Threw err s7 \<Rightarrow> Threw err s7
                   | Exited status' s7 \<Rightarrow> Exited status' s7)))"

text \<open>
  After the handler is registered, \<^verbatim>\<open>run\<close> never returns: it loops over the queue,
  and block notifications arrive between the steps of the loop. A finite stretch of
  that run is a list of what happens, in order: a notification with its block number,
  or one iteration of the \<^verbatim>\<open>while\<close> loop, with what the chain answers during it. An
  iteration on an empty queue waits and changes nothing; otherwise it takes the first
  block of the queue and processes it. A notification that arrives while a block is
  being processed only touches \<open>blockQueue\<close> and \<open>blockTip\<close>, which the processing has
  already written, so it is the same as one that arrives just after.
\<close>

datatype driver_event = BlockNotification nat | LoopIteration chain

fun run_step :: "driver_event \<Rightarrow> keeper \<Rightarrow> outcome" where
  "run_step (BlockNotification blockNumber') s = Returned (onBlock blockNumber' s)"
| "run_step (LoopIteration c) s =
     (case blockQueue s of
        [] \<Rightarrow> Returned s
      | blockNumber' # rest \<Rightarrow> processNewBlock c blockNumber' (s\<lparr>blockQueue := rest\<rparr>))"

fun run_loop :: "driver_event list \<Rightarrow> keeper \<Rightarrow> outcome" where
  "run_loop [] s = Returned s"
| "run_loop (e # es) s =
     (case run_step e s of
        Returned s' \<Rightarrow> run_loop es s'
      | Threw err s' \<Rightarrow> Threw err s'
      | Exited status' s' \<Rightarrow> Exited status' s')"

text \<open>
  The outcome of the \<^verbatim>\<open>try\<close> block of \<^verbatim>\<open>liquidateOrder\<close>: the error it throws or the
  receipt it reaches.
\<close>

definition submission :: "chain \<Rightarrow> string \<Rightarrow> js_error + receipt" where
  "submission c account =
     (case liquidatePosition c account of
        Inl err \<Rightarrow> Inl err
      | Inr t \<Rightarrow> tx_wait c t)"

text \<open>The keeper's state at the end of an outcome.\<close>

fun state_of :: "outcome \<Rightarrow> keeper" where
  "state_of (Returned s) = s"
| "state_of (Threw err s) = s"
| "state_of (Exited status' s) = s"

text \<open>The index as the mapping from an account to its entry.\<close>

definition index_of :: "keeper \<Rightarrow> string \<Rightarrow> position option" where
  "index_of s = map_of (positions s)"


text \<open>
  Several calls of \<^verbatim>\<open>runKeeperTask\<close> in flight at once. Each call runs
  \<open>runKeeperTask_begin\<close> when it is made and, unless it was skipped, is suspended at
  \<^verbatim>\<open>await cb()\<close> until its callback settles, when \<open>runKeeperTask_resume\<close> runs. The
  list beside the keeper's state holds the ids of the suspended calls, that is of the
  callbacks invoked and not yet settled. A callback does not write
  \<open>activeKeeperTasks\<close> itself.
\<close>

datatype task_event = Call nat string | Settle nat string "js_error option"

fun task_step :: "task_event \<Rightarrow> keeper \<times> nat list \<Rightarrow> keeper \<times> nat list" where
  "task_step (Call id' taskLabel) (s, inflight) =
     (case runKeeperTask_begin id' taskLabel s of
        None \<Rightarrow> (s, inflight)
      | Some s2 \<Rightarrow> (s2, inflight @ [id']))"
| "task_step (Settle id' taskLabel thrown) (s, inflight) =
     (if id' \<in> set inflight
      then (runKeeperTask_resume id' taskLabel thrown s, remove1 id' inflight)
      else (s, inflight))"

section \<open>The paginated reads of \<^verbatim>\<open>src/unnamed/part_000\<close>\<close>

subsection \<open>Data\<close>

datatype PaginationEntityType = POSITION | ORDER

definition MAX_ADDRESS_PAGE_SIZE :: nat where
  "MAX_ADDRESS_PAGE_SIZE = 1000"

definition MAX_ADDRESS_PAGE_CALLS :: nat where
  "MAX_ADDRESS_PAGE_CALLS = 100"

definition MAX_ENTITY_PAGE_CALLS :: nat where
  "MAX_ENTITY_PAGE_CALLS = 500"

text \<open>
  A market of \<^verbatim>\<open>KeeperContracts['markets']\<close>: the addresses of its trading contract and
  of its state contract, and its asset. \<open>markets\<close> and the other records keyed by market
  are JavaScript objects: association lists in the order of their keys.
\<close>

record market =
  contract_address :: string
  state_address :: string
  asset :: string

record block =
  block_number :: nat
  block_timestamp :: nat

text \<open>
  One call of an aggregate request: the target and the call data, which is the name of
  the function with its arguments (\<^verbatim>\<open>encodeFunctionData\<close>).
\<close>

datatype call_arg = ArgAddress string | ArgNumber nat

record call =
  target :: string
  callData :: "string \<times> call_arg list"

text \<open>What the state contract returns for \<^verbatim>\<open>positions\<close> and for \<^verbatim>\<open>delayedOrders\<close>.\<close>

record position_response =
  response_id :: nat
  response_size :: int
  response_lastPrice :: nat
  response_margin :: nat

record delayedOrder_response =
  raw_isOffchain :: bool
  raw_executableAtTime :: nat
  raw_intentionTime :: nat

text \<open>
  \<^verbatim>\<open>Position\<close> and \<^verbatim>\<open>DelayedOrder\<close> as \<^verbatim>\<open>getPositionsByAddresses\<close> and
  \<^verbatim>\<open>getOrdersByAddresses\<close> build them. A JavaScript number is a rational here.
\<close>

record Position =
  position_account :: string
  position_id :: nat
  position_size :: rat
  leverage :: rat
  liqPrice :: rat
  liqPriceUpdatedTimestamp :: nat

record DelayedOrder =
  order_account :: string
  executableAtTime :: nat
  intentionTime :: nat
  executionFailures :: nat

text \<open>
  What lies outside the file. \<open>aggregate_call\<close> is what one call of an aggregate
  request returns at a pinned block, or the error it reverts with. The decoders are
  \<^verbatim>\<open>decodeFunctionResult\<close> of the state contract's interface for the function named
  (first component of the result), which throws on data it cannot decode.
  \<open>size_toNumber\<close> and \<open>leverage_toNumber\<close> are the arithmetic of the \<^verbatim>\<open>wei\<close> library
  on the size and on the size, last price and margin; the division by the margin may
  throw.
\<close>

record rpc =
  aggregate_call :: "nat \<Rightarrow> call \<Rightarrow> js_error + string"
  decode_uint :: "string \<Rightarrow> string \<Rightarrow> js_error + nat"
  decode_position :: "string \<Rightarrow> js_error + position_response"
  decode_delayedOrder :: "string \<Rightarrow> js_error + delayedOrder_response"
  size_toNumber :: "int \<Rightarrow> rat"
  leverage_toNumber :: "position_response \<Rightarrow> js_error + rat"

subsection \<open>Helpers of the libraries\<close>

text \<open>
  A \<^verbatim>\<open>map\<close> whose function may throw: the first error leaves it.
\<close>

fun try_map :: "('a \<Rightarrow> js_error + 'b) \<Rightarrow> 'a list \<Rightarrow> js_error + 'b list" where
  "try_map f [] = Inr []"
| "try_map f (x # xs) =
     (case f x of
        Inl err \<Rightarrow> Inl err
      | Inr y \<Rightarrow> (case try_map f xs of Inl err \<Rightarrow> Inl err | Inr ys \<Rightarrow> Inr (y # ys)))"

text \<open>
  \<^verbatim>\<open>multicall.callStatic.aggregate(calls, { blockTag })\<close>: the calls are made in order
  at the pinned block, the request reverts with the first call that does, and the
  return data has one item for each call, in the order of the calls.
\<close>

definition aggregate :: "rpc \<Rightarrow> call list \<Rightarrow> nat \<Rightarrow> js_error + string list" where
  "aggregate r calls blockTag = try_map (aggregate_call r blockTag) calls"

text \<open>\<^verbatim>\<open>chunk\<close> of lodash: groups of \<open>n\<close>, the last one shorter; nothing for \<open>n < 1\<close>.\<close>

function chunk :: "'a list \<Rightarrow> nat \<Rightarrow> 'a list list" where
  "chunk xs n = (if n = 0 \<or> xs = [] then [] else take n xs # chunk (drop n xs) n)"
  by pat_completeness auto
termination
  by (relation "measure (\<lambda>(xs, n). length xs)") auto

declare chunk.simps [simp del]

text \<open>
  \<^verbatim>\<open>const { state } = markets[marketKey]\<close>: a \<^verbatim>\<open>TypeError\<close> when the key is not there.
\<close>

definition TypeError :: js_error where
  "TypeError = \<lparr>err_code = None, err_text = ''TypeError''\<rparr>"

definition lookup_market :: "(string \<times> market) list \<Rightarrow> string \<Rightarrow> js_error + market" where
  "lookup_market markets marketKey =
     (case map_of markets marketKey of None \<Rightarrow> Inl TypeError | Some m \<Rightarrow> Inr m)"

text \<open>\<^verbatim>\<open>byMarket[marketKey] ?? []\<close>.\<close>

definition entities_at :: "(string \<times> 'a list) list \<Rightarrow> string \<Rightarrow> 'a list" where
  "entities_at byMarket marketKey =
     (case map_of byMarket marketKey of None \<Rightarrow> [] | Some xs \<Rightarrow> xs)"

text \<open>
  \<^verbatim>\<open>acc[marketKey] = (acc[marketKey] ?? []).concat(xs)\<close>.
\<close>

definition append_to :: "string \<Rightarrow> 'a list \<Rightarrow> (string \<times> 'a list) list \<Rightarrow> (string \<times> 'a list) list" where
  "append_to marketKey xs acc =
     AList.update marketKey (entities_at acc marketKey @ xs) acc"

subsection \<open>The counts\<close>

text \<open>
  \<^verbatim>\<open>getAddressLengthByMarket\<close>: one aggregate request with one call for each market,
  then the \<^verbatim>\<open>forEach\<close> over the return data, which keeps the lengths above zero. The
  first component of the result lists the aggregate requests made.
\<close>

definition lengthFunctionName :: "PaginationEntityType \<Rightarrow> string" where
  "lengthFunctionName type' =
     (case type' of
        POSITION \<Rightarrow> ''getPositionAddressesLength''
      | ORDER \<Rightarrow> ''getDelayedOrderAddressesLength'')"

fun lengths_forEach ::
  "rpc \<Rightarrow> (string \<times> market) list \<Rightarrow> string \<Rightarrow> (string \<times> string) list \<Rightarrow>
   (string \<times> nat) list \<Rightarrow> js_error + (string \<times> nat) list" where
  "lengths_forEach r markets rpcFunctionName [] lengthByMarket = Inr lengthByMarket"
| "lengths_forEach r markets rpcFunctionName ((data, marketKey) # rest) lengthByMarket =
     (case lookup_market markets marketKey of
        Inl err \<Rightarrow> Inl err
      | Inr m \<Rightarrow>
          (case decode_uint r rpcFunctionName data of
             Inl err \<Rightarrow> Inl err
           | Inr length' \<Rightarrow>
               lengths_forEach r markets rpcFunctionName rest
                 (if length' > 0 then AList.update marketKey length' lengthByMarket
                  else lengthByMarket)))"

definition getAddressLengthByMarket ::
  "rpc \<Rightarrow> (string \<times> market) list \<Rightarrow> block \<Rightarrow> PaginationEntityType \<Rightarrow>
   call list list \<times> (js_error + (string \<times> nat) list)" where
  "getAddressLengthByMarket r markets block' type' =
     (let marketKeys = map fst markets;
          rpcFunctionName = lengthFunctionName type'
      in case try_map (\<lambda>marketKey.
                 case lookup_market markets marketKey of
                   Inl err \<Rightarrow> Inl err
                 | Inr m \<Rightarrow> Inr \<lparr>target = state_address m, callData = (rpcFunctionName, [])\<rparr>)
               marketKeys of
           Inl err \<Rightarrow> ([], Inl err)
         | Inr getLengthCalls \<Rightarrow>
             (case aggregate r getLengthCalls (block_number block') of
                Inl err \<Rightarrow> ([getLengthCalls], Inl err)
              | Inr returnData \<Rightarrow>
                  ([getLengthCalls],
                   lengths_forEach r markets rpcFunctionName (zip returnData marketKeys) [])))"

subsection \<open>The entities\<close>

text \<open>
  \<^verbatim>\<open>flattenedAddressesWithMarketKey\<close>: the pairs of an address and its market key, market
  after market in the order of the keys. A key of \<^verbatim>\<open>Object.keys\<close> is always there.
\<close>

definition flattenedAddressesWithMarketKey ::
  "(string \<times> string list) list \<Rightarrow> (string \<times> string) list" where
  "flattenedAddressesWithMarketKey addressesByMarket =
     concat (map (\<lambda>marketKey.
                map (\<lambda>address. (address, marketKey))
                  (case map_of addressesByMarket marketKey of None \<Rightarrow> [] | Some as \<Rightarrow> as))
              (map fst addressesByMarket))"

text \<open>The call of a pair for the function named.\<close>

definition entity_call ::
  "(string \<times> market) list \<Rightarrow> string \<Rightarrow> string \<times> string \<Rightarrow> js_error + call" where
  "entity_call markets rpcFunctionName pair =
     (case pair of (address, marketKey) \<Rightarrow>
        (case lookup_market markets marketKey of
           Inl err \<Rightarrow> Inl err
         | Inr m \<Rightarrow>
             Inr \<lparr>target = state_address m,
                  callData = (rpcFunctionName, [ArgAddress address])\<rparr>))"

text \<open>The \<^verbatim>\<open>Position\<close> literal of \<^verbatim>\<open>getPositionsByAddresses\<close>.\<close>

definition build_position ::
  "rpc \<Rightarrow> block \<Rightarrow> string \<Rightarrow> position_response \<Rightarrow> js_error + Position" where
  "build_position r block' address response =
     (case leverage_toNumber r response of
        Inl err \<Rightarrow> Inl err
      | Inr lev \<Rightarrow>
          Inr \<lparr>position_account = address, position_id = response_id response,
               position_size = size_toNumber r (response_size response),
               leverage = lev, liqPrice = - 1,
               liqPriceUpdatedTimestamp = block_timestamp block'\<rparr>)"

fun positions_forEach ::
  "rpc \<Rightarrow> (string \<times> market) list \<Rightarrow> block \<Rightarrow> (string \<times> string \<times> string) list \<Rightarrow>
   (string \<times> Position list) list \<Rightarrow> js_error + (string \<times> Position list) list" where
  "positions_forEach r markets block' [] ordersByMarket = Inr ordersByMarket"
| "positions_forEach r markets block' ((data, address, marketKey) # rest) ordersByMarket =
     (case lookup_market markets marketKey of
        Inl err \<Rightarrow> Inl err
      | Inr m \<Rightarrow>
          (case decode_position r data of
             Inl err \<Rightarrow> Inl err
           | Inr response \<Rightarrow>
               (case build_position r block' address response of
                  Inl err \<Rightarrow> Inl err
                | Inr position \<Rightarrow>
                    positions_forEach r markets block' rest
                      (append_to marketKey [position] ordersByMarket))))"

text \<open>
  The \<^verbatim>\<open>for\<close> loop of \<^verbatim>\<open>getPositionsByAddresses\<close> over the batches: the calls of the
  batch, one aggregate request, the \<^verbatim>\<open>forEach\<close> over its return data. The requests made
  so far are threaded beside the result.
\<close>

fun getPositionsByAddresses_loop ::
  "rpc \<Rightarrow> (string \<times> market) list \<Rightarrow> block \<Rightarrow> (string \<times> string) list list \<Rightarrow>
   call list list \<Rightarrow> (string \<times> Position list) list \<Rightarrow>
   call list list \<times> (js_error + (string \<times> Position list) list)" where
  "getPositionsByAddresses_loop r markets block' [] requests ordersByMarket =
     (requests, Inr ordersByMarket)"
| "getPositionsByAddresses_loop r markets block' (batch # rest) requests ordersByMarket =
     (case try_map (entity_call markets ''positions'') batch of
        Inl err \<Rightarrow> (requests, Inl err)
      | Inr delayedOrdersCalls \<Rightarrow>
          (case aggregate r delayedOrdersCalls (block_number block') of
             Inl err \<Rightarrow> (requests @ [delayedOrdersCalls], Inl err)
           | Inr returnData \<Rightarrow>
               (case positions_forEach r markets block' (zip returnData batch)
                       ordersByMarket of
                  Inl err \<Rightarrow> (requests @ [delayedOrdersCalls], Inl err)
                | Inr ordersByMarket' \<Rightarrow>
                    getPositionsByAddresses_loop r markets block' rest
                      (requests @ [delayedOrdersCalls]) ordersByMarket')))"

text \<open>
  \<^verbatim>\<open>getPositionsByAddresses\<close>, with the size of a batch as a parameter; the source
  passes \<^verbatim>\<open>MAX_ENTITY_PAGE_CALLS\<close>.
\<close>

definition getPositionsByAddresses_limit ::
  "nat \<Rightarrow> rpc \<Rightarrow> (string \<times> string list) list \<Rightarrow> (string \<times> market) list \<Rightarrow> block \<Rightarrow>
   call list list \<times> (js_error + (string \<times> Position list) list)" where
  "getPositionsByAddresses_limit limit r addressesByMarket markets block' =
     getPositionsByAddresses_loop r markets block'
       (chunk (flattenedAddressesWithMarketKey addressesByMarket) limit) [] []"

definition getPositionsByAddresses ::
  "rpc \<Rightarrow> (string \<times> string list) list \<Rightarrow> (string \<times> market) list \<Rightarrow> block \<Rightarrow>
   call list list \<times> (js_error + (string \<times> Position list) list)" where
  "getPositionsByAddresses = getPositionsByAddresses_limit MAX_ENTITY_PAGE_CALLS"

text \<open>
  The same for \<^verbatim>\<open>getOrdersByAddresses\<close>, which keeps the orders flagged off-chain only.
\<close>

definition build_order :: "string \<Rightarrow> delayedOrder_response \<Rightarrow> DelayedOrder" where
  "build_order address rawDelayedOrder =
     \<lparr>order_account = address,
      executableAtTime = raw_executableAtTime rawDelayedOrder,
      intentionTime = raw_intentionTime rawDelayedOrder,
      executionFailures = 0\<rparr>"

fun orders_forEach ::
  "rpc \<Rightarrow> (string \<times> market) list \<Rightarrow> (string \<times> string \<times> string) list \<Rightarrow>
   (string \<times> DelayedOrder list) list \<Rightarrow> js_error + (string \<times> DelayedOrder list) list" where
  "orders_forEach r markets [] ordersByMarket = Inr ordersByMarket"
| "orders_forEach r markets ((data, address, marketKey) # rest) ordersByMarket =
     (case lookup_market markets marketKey of
        Inl err \<Rightarrow> Inl err
      | Inr m \<Rightarrow>
          (case decode_delayedOrder r data of
             Inl err \<Rightarrow> Inl err
           | Inr rawDelayedOrder \<Rightarrow>
               orders_forEach r markets rest
                 (if raw_isOffchain rawDelayedOrder
                  then append_to marketKey [build_order address rawDelayedOrder] ordersByMarket
                  else ordersByMarket)))"

fun getOrdersByAddresses_loop ::
  "rpc \<Rightarrow> (string \<times> market) list \<Rightarrow> block \<Rightarrow> (string \<times> string) list list \<Rightarrow>
   call list list \<Rightarrow> (string \<times> DelayedOrder list) list \<Rightarrow>
   call list list \<times> (js_error + (string \<times> DelayedOrder list) list)" where
  "getOrdersByAddresses_loop r markets block' [] requests ordersByMarket =
     (requests, Inr ordersByMarket)"
| "getOrdersByAddresses_loop r markets block' (batch # rest) requests ordersByMarket =
     (case try_map (entity_call markets ''delayedOrders'') batch of
        Inl err \<Rightarrow> (requests, Inl err)
      | Inr delayedOrdersCalls \<Rightarrow>
          (case aggregate r delayedOrdersCalls (block_number block') of
             Inl err \<Rightarrow> (requests @ [delayedOrdersCalls], Inl err)
           | Inr returnData \<Rightarrow>
               (case orders_forEach r markets (zip returnData batch) ordersByMarket of
                  Inl err \<Rightarrow> (requests @ [delayedOrdersCalls], Inl err)
                | Inr ordersByMarket' \<Rightarrow>
                    getOrdersByAddresses_loop r markets block' rest
                      (requests @ [delayedOrdersCalls]) ordersByMarket')))"

definition getOrdersByAddresses_limit ::
  "nat \<Rightarrow> rpc \<Rightarrow> (string \<times> string list) list \<Rightarrow> (string \<times> market) list \<Rightarrow> block \<Rightarrow>
   call list list \<times> (js_error + (string \<times> DelayedOrder list) list)" where
  "getOrdersByAddresses_limit limit r addressesByMarket markets block' =
     getOrdersByAddresses_loop r markets block'
       (chunk (flattenedAddressesWithMarketKey addressesByMarket) limit) [] []"

definition getOrdersByAddresses ::
  "rpc \<Rightarrow> (string \<times> string list) list \<Rightarrow> (string \<times> market) list \<Rightarrow> block \<Rightarrow>
   call list list \<times> (js_error + (string \<times> DelayedOrder list) list)" where
  "getOrdersByAddresses = getOrdersByAddresses_limit MAX_ENTITY_PAGE_CALLS"

text \<open>
  What one pair alone determines: its call, the data the call returns at the pinned
  block, and the entity decoded from the data (no order when the order is not flagged
  off-chain).
\<close>

definition pair_data ::
  "rpc \<Rightarrow> (string \<times> market) list \<Rightarrow> block \<Rightarrow> string \<Rightarrow> string \<times> string \<Rightarrow>
   js_error + string" where
  "pair_data r markets block' rpcFunctionName pair =
     (case entity_call markets rpcFunctionName pair of
        Inl err \<Rightarrow> Inl err
      | Inr c \<Rightarrow> aggregate_call r (block_number block') c)"

definition position_of_pair ::
  "rpc \<Rightarrow> (string \<times> market) list \<Rightarrow> block \<Rightarrow> string \<times> string \<Rightarrow> js_error + Position" where
  "position_of_pair r markets block' pair =
     (case pair_data r markets block' ''positions'' pair of
        Inl err \<Rightarrow> Inl err
      | Inr data \<Rightarrow>
          (case decode_position r data of
             Inl err \<Rightarrow> Inl err
           | Inr response \<Rightarrow> build_position r block' (fst pair) response))"

definition order_of_pair ::
  "rpc \<Rightarrow> (string \<times> market) list \<Rightarrow> block \<Rightarrow> string \<times> string \<Rightarrow>
   js_error + DelayedOrder option" where
  "order_of_pair r markets block' pair =
     (case pair_data r markets block' ''delayedOrders'' pair of
        Inl err \<Rightarrow> Inl err
      | Inr data \<Rightarrow>
          (case decode_delayedOrder r data of
             Inl err \<Rightarrow> Inl err
           | Inr rawDelayedOrder \<Rightarrow>
               Inr (if raw_isOffchain rawDelayedOrder
                    then Some (build_order (fst pair) rawDelayedOrder) else None)))"

text \<open>The count of a market on the chain at the pinned block.\<close>

definition market_length ::
  "rpc \<Rightarrow> (string \<times> market) list \<Rightarrow> block \<Rightarrow> PaginationEntityType \<Rightarrow> string \<Rightarrow>
   js_error + nat" where
  "market_length r markets block' type' marketKey =
     (case lookup_market markets marketKey of
        Inl err \<Rightarrow> Inl err
      | Inr m \<Rightarrow>
          (case aggregate_call r (block_number block')
                  \<lparr>target = state_address m, callData = (lengthFunctionName type', [])\<rparr> of
             Inl err \<Rightarrow> Inl err
           | Inr data \<Rightarrow> decode_uint r (lengthFunctionName type') data))"

subsection \<open>The pages\<close>

text \<open>
  Modelled from the spec: \<^verbatim>\<open>getPaginatedFromAndTo\<close> of \<^verbatim>\<open>./keepers/helpers\<close>, which
  the file imports and calls as \<^verbatim>\<open>getPaginatedFromAndTo(0, count, MAX_ADDRESS_PAGE_SIZE)\<close>,
  is not among the sources. The spec calls it \<open>computePages(count, maxPageSize)\<close>: an
  ordered list of page descriptors, each an (offset, size) pair, that covers
  \<open>[0, count)\<close> exactly, every page of the maximum size but the last, which holds the
  remainder.
\<close>

definition computePages :: "nat \<Rightarrow> nat \<Rightarrow> (nat \<times> nat) list" where
  "computePages count maxPageSize =
     map (\<lambda>i. (i * maxPageSize, min maxPageSize (count - i * maxPageSize)))
       [0..<(count + maxPageSize - 1) div maxPageSize]"

text \<open>The indices a page covers.\<close>

definition page_range :: "nat \<times> nat \<Rightarrow> nat list" where
  "page_range page = [fst page..<fst page + snd page]"

section \<open>Sample inputs\<close>

text \<open>
  The concrete chains, errors and keeper states at which the theorems below are
  instantiated.
\<close>

definition quiet_chain :: chain where
  "quiet_chain =
     \<lparr>baseAsset_call = Inr ''sETH'',
      queryFilter = (\<lambda>fromBlock toBlock. Inr []),
      exchangeRates_queryFilter = (\<lambda>fromBlock toBlock. Inr []),
      canLiquidate = (\<lambda>account. Inr False),
      liquidatePosition = (\<lambda>account. Inl \<lparr>err_code = None, err_text = ''unused''\<rparr>),
      tx_wait = (\<lambda>t. Inl \<lparr>err_code = None, err_text = ''unused''\<rparr>)\<rparr>"

definition listening_keeper :: keeper where
  "listening_keeper =
     \<lparr>positions = [], activeKeeperTasks = {}, blockQueue = [], blockTip = None,
      baseAsset = Some ''sETH'',
      logs = [(''info'', MarketDeployed), (''info'', RebuildingIndex 0),
              (''info'', EventsToProcess 0), (''info'', IndexBuildComplete),
              (''info'', StartingKeeperLoop), (''info'', PositionsToKeep 0),
              (''info'', ListeningForEvents)],
      metrics = [FuturesOpenPositions (Some ''sETH'') 0]\<rparr>"

definition plain_error :: js_error where
  "plain_error = \<lparr>err_code = None, err_text = ''Error: boom''\<rparr>"

definition call_exception :: js_error where
  "call_exception = \<lparr>err_code = Some ''CALL_EXCEPTION'', err_text = ''Error: reverted''\<rparr>"

definition nonce_expired :: js_error where
  "nonce_expired = \<lparr>err_code = Some ''NONCE_EXPIRED'', err_text = ''Error: nonce has already been used''\<rparr>"

definition failing_chain :: "js_error \<Rightarrow> chain" where
  "failing_chain err =
     \<lparr>baseAsset_call = Inr ''sETH'',
      queryFilter = (\<lambda>fromBlock toBlock. Inr []),
      exchangeRates_queryFilter = (\<lambda>fromBlock toBlock. Inr []),
      canLiquidate = (\<lambda>account. Inr True),
      liquidatePosition = (\<lambda>account. Inr \<lparr>nonce = 3\<rparr>),
      tx_wait = (\<lambda>t. Inl err)\<rparr>"

definition one_position_keeper :: keeper where
  "one_position_keeper =
     \<lparr>positions = [(''A'', \<lparr>pos_id = 7, pos_event = ''PositionModified'', pos_account = ''A'',
                            pos_size = 5\<rparr>)],
      activeKeeperTasks = {}, blockQueue = [100, 101], blockTip = Some 99,
      baseAsset = Some ''sETH'', logs = [], metrics = []\<rparr>"

definition halted_keeper :: keeper where
  "halted_keeper =
     \<lparr>positions = [(''A'', \<lparr>pos_id = 7, pos_event = ''PositionModified'', pos_account = ''A'',
                            pos_size = 5\<rparr>)],
      activeKeeperTasks = {7}, blockQueue = [101], blockTip = Some 100,
      baseAsset = Some ''sETH'',
      logs = [(''debug'', ProcessingBlock 100), (''debug'', EventsToProcess 0),
              (''info'', PositionsToKeep 1), (''info'', Running ''liquidation'' 7),
              (''info'', BeginLiquidatePosition 7), (''debug'', SubmitLiquidatePosition 7 3),
              (''error'', FatalError nonce_expired)],
      metrics = [FuturesOpenPositions (Some ''sETH'') 1,
                 FuturesLiquidations (Some ''sETH'') False]\<rparr>"

definition counts_rpc :: rpc where
  "counts_rpc =
     \<lparr>aggregate_call = (\<lambda>blockTag c.
        Inr (if target c = ''stateA'' then ''0x0''
             else if target c = ''stateB'' then ''0x5dc'' else ''0x3'')),
      decode_uint = (\<lambda>rpcFunctionName data.
        if data = ''0x0'' then Inr 0 else if data = ''0x5dc'' then Inr 1500 else Inr 3),
      decode_position = (\<lambda>data. Inl TypeError),
      decode_delayedOrder = (\<lambda>data. Inl TypeError),
      size_toNumber = (\<lambda>size'. 0),
      leverage_toNumber = (\<lambda>response. Inl TypeError)\<rparr>"

definition three_markets :: "(string \<times> market) list" where
  "three_markets =
     [(''A'', \<lparr>contract_address = ''marketA'', state_address = ''stateA'', asset = ''sA''\<rparr>),
      (''B'', \<lparr>contract_address = ''marketB'', state_address = ''stateB'', asset = ''sB''\<rparr>),
      (''C'', \<lparr>contract_address = ''marketC'', state_address = ''stateC'', asset = ''sC''\<rparr>)]"

definition pinned_block :: block where
  "pinned_block = \<lparr>block_number = 100, block_timestamp = 1700000000\<rparr>"

definition entity_rpc :: rpc where
  "entity_rpc =
     \<lparr>aggregate_call = (\<lambda>blockTag c.
        case snd (callData c) of
          [ArgAddress address] \<Rightarrow> Inr (target c @ '':'' @ address)
        | _ \<Rightarrow> Inl TypeError),
      decode_uint = (\<lambda>rpcFunctionName data. Inr (length data)),
      decode_position = (\<lambda>data.
        Inr \<lparr>response_id = length data, response_size = 5, response_lastPrice = 2,
             response_margin = 1\<rparr>),
      decode_delayedOrder = (\<lambda>data.
        Inr \<lparr>raw_isOffchain = (data \<noteq> ''stateB:0xb''), raw_executableAtTime = 20,
             raw_intentionTime = 10\<rparr>),
      size_toNumber = (\<lambda>size'. of_int size'),
      leverage_toNumber = (\<lambda>response. Inr 10)\<rparr>"

definition four_addresses :: "(string \<times> string list) list" where
  "four_addresses = [(''B'', [''0xa'', ''0xb'', ''0xc'']), (''C'', [''0xd''])]"

section \<open>Properties\<close>

subsection \<open>What each function leaves alone\<close>

lemma logger_log_fields [simp]:
  "positions (logger_log lvl line s) = positions s"
  "activeKeeperTasks (logger_log lvl line s) = activeKeeperTasks s"
  "blockQueue (logger_log lvl line s) = blockQueue s"
  "blockTip (logger_log lvl line s) = blockTip s"
  "baseAsset (logger_log lvl line s) = baseAsset s"
  "metrics (logger_log lvl line s) = metrics s"
  "logs (logger_log lvl line s) = logs s @ [(lvl, line)]"
  by (simp_all add: logger_log_def)

lemma metrics_record_fields [simp]:
  "positions (metrics_record m s) = positions s"
  "activeKeeperTasks (metrics_record m s) = activeKeeperTasks s"
  "blockQueue (metrics_record m s) = blockQueue s"
  "blockTip (metrics_record m s) = blockTip s"
  "baseAsset (metrics_record m s) = baseAsset s"
  "logs (metrics_record m s) = logs s"
  "metrics (metrics_record m s) = metrics s @ [m]"
  by (simp_all add: metrics_record_def)

lemma updateIndex_event_fields [simp]:
  "activeKeeperTasks (updateIndex_event e s) = activeKeeperTasks s"
  "blockQueue (updateIndex_event e s) = blockQueue s"
  "blockTip (updateIndex_event e s) = blockTip s"
  "baseAsset (updateIndex_event e s) = baseAsset s"
  "metrics (updateIndex_event e s) = metrics s"
  by (cases e; simp add: Let_def split: option.splits)+

lemma updateIndex_fields [simp]:
  "activeKeeperTasks (updateIndex events s) = activeKeeperTasks s"
  "blockQueue (updateIndex events s) = blockQueue s"
  "blockTip (updateIndex events s) = blockTip s"
  "baseAsset (updateIndex events s) = baseAsset s"
  "metrics (updateIndex events s) = metrics s"
  unfolding updateIndex_def by (induction events arbitrary: s; simp)+



subsection \<open>The index\<close>





subsection \<open>The update rules of the index\<close>

text \<open>
  Claim C3, as the code has it. Applying a \<^verbatim>\<open>PositionModified\<close> event with size 0
  removes the account's entry. With a size other than 0 it inserts or overwrites the
  account's entry, which then holds the event's id, the event's name, the account and
  the new size; the entries of the other accounts stay as they are. The entry has a
  \<^verbatim>\<open>size\<close> property and no \<^verbatim>\<open>leverage\<close> property: the keeper computes no leverage.
  Applying a modification with size 5 and then one with size 0 for the same account to
  the empty index leaves the index empty.
\<close>

theorem updateIndex_PositionModified:
  "index_of (updateIndex [PositionModified id' account 0] s) account = None
   \<and> (size' \<noteq> 0 \<longrightarrow>
        index_of (updateIndex [PositionModified id' account size'] s) account
          = Some \<lparr>pos_id = id', pos_event = ''PositionModified'', pos_account = account,
                  pos_size = size'\<rparr>)
   \<and> (other \<noteq> account \<longrightarrow>
        index_of (updateIndex [PositionModified id' account size'] s) other = index_of s other)
   \<and> position_property
        \<lparr>pos_id = id', pos_event = ''PositionModified'', pos_account = account,
         pos_size = size'\<rparr> ''size'' = Some (BN size')
   \<and> position_property
        \<lparr>pos_id = id', pos_event = ''PositionModified'', pos_account = account,
         pos_size = size'\<rparr> ''leverage'' = None
   \<and> positions
        (updateIndex [PositionModified id' account 5, PositionModified id' account 0] new_Keeper)
        = []"
  by (simp add: updateIndex_def index_of_def Let_def update_conv' delete_conv'
      position_property_def new_Keeper_def)

text \<open>
  The theorem at the empty index, for account \<open>A\<close> with size 5 and another account \<open>B\<close>.
\<close>

theorem updateIndex_PositionModified_witness:
  "(5 :: int) \<noteq> 0 \<and> ''B'' \<noteq> ''A''
   \<and> index_of (updateIndex [PositionModified 1 ''A'' 5] new_Keeper) ''A''
       = Some \<lparr>pos_id = 1, pos_event = ''PositionModified'', pos_account = ''A'', pos_size = 5\<rparr>
   \<and> index_of (updateIndex [PositionModified 1 ''A'' 5] new_Keeper) ''B'' = None"
  using updateIndex_PositionModified [of 1 "''A''" new_Keeper 5 "''B''"]
  by (simp add: index_of_def new_Keeper_def)

text \<open>
  Claim C3 as the spec states it promises an entry with a recomputed leverage. The
  entry that \<^verbatim>\<open>PositionModified\<close> with size 5 stores for \<open>A\<close> in the empty index has
  no such property.
\<close>

theorem updateIndex_PositionModified_no_leverage:
  "index_of (updateIndex [PositionModified 1 ''A'' 5] new_Keeper) ''A''
     = Some \<lparr>pos_id = 1, pos_event = ''PositionModified'', pos_account = ''A'', pos_size = 5\<rparr>
   \<and> position_property
        \<lparr>pos_id = 1, pos_event = ''PositionModified'', pos_account = ''A'', pos_size = 5\<rparr>
        ''leverage'' = None"
  by (simp add: updateIndex_def index_of_def Let_def position_property_def new_Keeper_def)

text \<open>
  Claim C9. Applying a \<^verbatim>\<open>PositionLiquidated\<close> event removes the account's entry,
  whatever the index holds, and leaves the entries of the other accounts as they are.
  When the index has no entry for the account, the event changes nothing but the log:
  the function is total, so no error is raised, and the state is the one before with
  the event's log line added.
\<close>

theorem updateIndex_PositionLiquidated:
  "index_of (updateIndex [PositionLiquidated account liquidator] s) account = None
   \<and> (other \<noteq> account \<longrightarrow>
        index_of (updateIndex [PositionLiquidated account liquidator] s) other
          = index_of s other)
   \<and> (index_of s account = None \<longrightarrow>
        updateIndex [PositionLiquidated account liquidator] s
          = s\<lparr>logs := logs s @ [(''info'', LogPositionLiquidated account liquidator)]\<rparr>)"
  by (auto simp: updateIndex_def index_of_def Let_def delete_conv' logger_log_def
      map_of_eq_None_iff)

text \<open>The theorem at the empty index, which has no entry for \<open>A\<close>.\<close>

theorem updateIndex_PositionLiquidated_witness:
  "''B'' \<noteq> ''A'' \<and> index_of new_Keeper ''A'' = None
   \<and> index_of (updateIndex [PositionLiquidated ''A'' ''L''] new_Keeper) ''B'' = None
   \<and> updateIndex [PositionLiquidated ''A'' ''L''] new_Keeper
       = new_Keeper\<lparr>logs := [(''info'', LogPositionLiquidated ''A'' ''L'')]\<rparr>"
  using updateIndex_PositionLiquidated [of "''A''" "''L''" new_Keeper "''B''"]
  by (simp add: index_of_def new_Keeper_def)



subsection \<open>The submitter and the scheduler\<close>

lemma liquidateOrder_fields [simp]:
  "positions (state_of (liquidateOrder c id' a s)) = positions s"
  "activeKeeperTasks (state_of (liquidateOrder c id' a s)) = activeKeeperTasks s"
  "blockQueue (state_of (liquidateOrder c id' a s)) = blockQueue s"
  "blockTip (state_of (liquidateOrder c id' a s)) = blockTip s"
  "baseAsset (state_of (liquidateOrder c id' a s)) = baseAsset s"
  by (simp_all add: liquidateOrder_def Let_def split: sum.splits bool.splits option.splits)

lemma liquidateOrder_Exited:
  "liquidateOrder c id' a s = Exited status' s' \<Longrightarrow> status' = - 1"
  by (auto simp: liquidateOrder_def Let_def split: sum.splits if_splits option.splits)

lemma liquidateOrder_submission_Inl:
  assumes "canLiquidate c a = Inr True" and "submission c a = Inl err"
  shows "\<exists>s3. metrics s3 = metrics s \<and> baseAsset s3 = baseAsset s
           \<and> activeKeeperTasks s3 = activeKeeperTasks s \<and> positions s3 = positions s
           \<and> blockQueue s3 = blockQueue s \<and> blockTip s3 = blockTip s
           \<and> liquidateOrder c id' a s =
               (if err_code err = Some ''NONCE_EXPIRED''
                then Exited (- 1) (logger_log ''error'' (FatalError err)
                       (metrics_record (FuturesLiquidations (baseAsset s) False) s3))
                else Threw err (metrics_record (FuturesLiquidations (baseAsset s) False) s3))"
proof (cases "liquidatePosition c a")
  case (Inl e)
  with assms have "e = err" by (simp add: submission_def)
  with Inl assms(1) show ?thesis
    by (intro exI [of _ "logger_log ''info'' (BeginLiquidatePosition id') s"])
      (auto simp: liquidateOrder_def Let_def split: option.splits)
next
  case (Inr t)
  with assms have "tx_wait c t = Inl err" by (simp add: submission_def)
  with Inr assms(1) show ?thesis
    by (intro exI [of _ "logger_log ''debug'' (SubmitLiquidatePosition id' (nonce t))
          (logger_log ''info'' (BeginLiquidatePosition id') s)"])
      (auto simp: liquidateOrder_def Let_def split: option.splits)
qed

lemma runKeeperTask_halves:
  "runKeeperTask id' l cb s =
     (case runKeeperTask_begin id' l s of
        None \<Rightarrow> Returned s
      | Some s2 \<Rightarrow>
          (case cb s2 of
             Returned s3 \<Rightarrow> Returned (runKeeperTask_resume id' l None s3)
           | Threw err s3 \<Rightarrow> Returned (runKeeperTask_resume id' l (Some err) s3)
           | Exited status' s3 \<Rightarrow> Exited status' s3))"
  by (simp add: runKeeperTask_def runKeeperTask_begin_def runKeeperTask_resume_def Let_def
      split: outcome.splits)

lemma runKeeperTask_begin_Some:
  "id' \<notin> activeKeeperTasks s \<Longrightarrow>
   runKeeperTask_begin id' l s =
     Some (logger_log ''info'' (Running l id')
            (s\<lparr>activeKeeperTasks := insert id' (activeKeeperTasks s)\<rparr>))"
  by (simp add: runKeeperTask_begin_def)

lemma runKeeperTask_begin_None:
  "id' \<in> activeKeeperTasks s \<Longrightarrow> runKeeperTask_begin id' l s = None"
  by (simp add: runKeeperTask_begin_def)

lemma runKeeperTask_resume_fields [simp]:
  "activeKeeperTasks (runKeeperTask_resume id' l thrown s) = activeKeeperTasks s - {id'}"
  "positions (runKeeperTask_resume id' l thrown s) = positions s"
  "blockQueue (runKeeperTask_resume id' l thrown s) = blockQueue s"
  "blockTip (runKeeperTask_resume id' l thrown s) = blockTip s"
  "baseAsset (runKeeperTask_resume id' l thrown s) = baseAsset s"
  by (simp_all add: runKeeperTask_resume_def Let_def split: option.splits)

lemma runKeeperTask_liquidateOrder_fields [simp]:
  "positions (state_of (runKeeperTask id' l (liquidateOrder c i a) s)) = positions s"
  "blockQueue (state_of (runKeeperTask id' l (liquidateOrder c i a) s)) = blockQueue s"
  "blockTip (state_of (runKeeperTask id' l (liquidateOrder c i a) s)) = blockTip s"
  "baseAsset (state_of (runKeeperTask id' l (liquidateOrder c i a) s)) = baseAsset s"
proof -
  let ?s2 = "logger_log ''info'' (Running l id')
               (s\<lparr>activeKeeperTasks := insert id' (activeKeeperTasks s)\<rparr>)"
  have f: "positions (state_of (liquidateOrder c i a ?s2)) = positions s"
    "blockQueue (state_of (liquidateOrder c i a ?s2)) = blockQueue s"
    "blockTip (state_of (liquidateOrder c i a ?s2)) = blockTip s"
    "baseAsset (state_of (liquidateOrder c i a ?s2)) = baseAsset s"
    by simp_all
  show "positions (state_of (runKeeperTask id' l (liquidateOrder c i a) s)) = positions s"
    "blockQueue (state_of (runKeeperTask id' l (liquidateOrder c i a) s)) = blockQueue s"
    "blockTip (state_of (runKeeperTask id' l (liquidateOrder c i a) s)) = blockTip s"
    "baseAsset (state_of (runKeeperTask id' l (liquidateOrder c i a) s)) = baseAsset s"
    using f
    by (cases "id' \<in> activeKeeperTasks s";
        cases "liquidateOrder c i a ?s2";
        simp add: runKeeperTask_halves runKeeperTask_begin_Some runKeeperTask_begin_None)+
qed

lemma runKeeperTask_liquidateOrder_Exited:
  "runKeeperTask id' l (liquidateOrder c i a) s = Exited status' s' \<Longrightarrow> status' = - 1"
  by (auto simp: runKeeperTask_halves split: option.splits outcome.splits
      dest: liquidateOrder_Exited)

lemma runKeeperTask_not_Threw:
  "runKeeperTask id' l cb s \<noteq> Threw err s'"
  by (simp add: runKeeperTask_halves split: option.splits outcome.splits)

lemma runKeepers_loop_frame:
  "positions (state_of (runKeepers_loop c ps s)) = positions s
   \<and> blockQueue (state_of (runKeepers_loop c ps s)) = blockQueue s
   \<and> blockTip (state_of (runKeepers_loop c ps s)) = blockTip s
   \<and> baseAsset (state_of (runKeepers_loop c ps s)) = baseAsset s"
proof (induction ps arbitrary: s)
  case Nil
  show ?case by simp
next
  case (Cons p ps)
  define r where
    "r = runKeeperTask (pos_id p) ''liquidation'' (liquidateOrder c (pos_id p) (pos_account p)) s"
  have f: "positions (state_of r) = positions s" "blockQueue (state_of r) = blockQueue s"
    "blockTip (state_of r) = blockTip s" "baseAsset (state_of r) = baseAsset s"
    by (simp_all add: r_def)
  have step: "runKeepers_loop c (p # ps) s =
      (case r of Returned s' \<Rightarrow> runKeepers_loop c ps s' | Threw err s' \<Rightarrow> Threw err s'
       | Exited status' s' \<Rightarrow> Exited status' s')"
    by (simp add: r_def)
  show ?case
  proof (cases r)
    case (Returned s1)
    show ?thesis unfolding step using f Cons.IH [of s1] by (simp add: Returned)
  next
    case (Threw err s1)
    show ?thesis unfolding step using f by (simp add: Threw)
  next
    case (Exited st s1)
    show ?thesis unfolding step using f by (simp add: Exited)
  qed
qed

lemma runKeepers_loop_fields [simp]:
  "positions (state_of (runKeepers_loop c ps s)) = positions s"
  "blockQueue (state_of (runKeepers_loop c ps s)) = blockQueue s"
  "blockTip (state_of (runKeepers_loop c ps s)) = blockTip s"
  "baseAsset (state_of (runKeepers_loop c ps s)) = baseAsset s"
  using runKeepers_loop_frame [of c ps s] by simp_all

lemma runKeepers_loop_Exited:
  "runKeepers_loop c ps s = Exited status' s' \<Longrightarrow> status' = - 1"
proof (induction ps arbitrary: s)
  case Nil
  then show ?case by simp
next
  case (Cons p ps)
  then show ?case
    by (auto split: outcome.splits dest: runKeeperTask_liquidateOrder_Exited)
qed

lemma runKeepers_fields [simp]:
  "positions (state_of (runKeepers c s)) = positions s"
  "blockQueue (state_of (runKeepers c s)) = blockQueue s"
  "blockTip (state_of (runKeepers c s)) = blockTip s"
  "baseAsset (state_of (runKeepers c s)) = baseAsset s"
  by (simp_all add: runKeepers_def Let_def)

lemma runKeepers_Exited: "runKeepers c s = Exited status' s' \<Longrightarrow> status' = - 1"
  by (auto simp: runKeepers_def Let_def dest: runKeepers_loop_Exited)

lemma processNewBlock_Exited: "processNewBlock c b s = Exited status' s' \<Longrightarrow> status' = - 1"
  by (auto simp: processNewBlock_def Let_def split: sum.splits dest: runKeepers_Exited)

lemma run_step_Exited: "run_step e s = Exited status' s' \<Longrightarrow> status' = - 1"
  by (cases e) (auto split: list.splits dest: processNewBlock_Exited)

lemma run_loop_Exited: "run_loop es s = Exited status' s' \<Longrightarrow> status' = - 1"
proof (induction es arbitrary: s)
  case Nil
  then show ?case by simp
next
  case (Cons e es)
  then show ?case
    by (auto split: outcome.splits dest: run_step_Exited)
qed

lemma run_loop_append:
  "run_loop (es @ es') s =
     (case run_loop es s of
        Returned s1 \<Rightarrow> run_loop es' s1
      | Threw err s1 \<Rightarrow> Threw err s1
      | Exited status' s1 \<Rightarrow> Exited status' s1)"
  by (induction es arbitrary: s) (auto split: outcome.splits)

lemma runKeepers_loop_append:
  "runKeepers_loop c (ps @ qs) s =
     (case runKeepers_loop c ps s of
        Returned s1 \<Rightarrow> runKeepers_loop c qs s1
      | Threw err s1 \<Rightarrow> Threw err s1
      | Exited status' s1 \<Rightarrow> Exited status' s1)"
  by (induction ps arbitrary: s) (auto split: outcome.splits)

lemma run_loop_idle:
  "blockQueue s = [] \<Longrightarrow> run_loop (map LoopIteration cs) s = Returned s"
  by (induction cs) auto

lemma run_startup_fields [simp]:
  "blockTip (state_of (run_startup c fromBlock s)) = blockTip s"
  "blockQueue (state_of (run_startup c fromBlock s)) = blockQueue s"
proof -
  have "blockTip (state_of (run_startup c fromBlock s)) = blockTip s
        \<and> blockQueue (state_of (run_startup c fromBlock s)) = blockQueue s"
  proof (cases "baseAsset_call c")
    case (Inl err)
    then show ?thesis by (simp add: run_startup_def)
  next
    case asset: (Inr asset)
    show ?thesis
    proof (cases "queryFilter c fromBlock Latest")
      case (Inl err)
      with asset show ?thesis by (simp add: run_startup_def)
    next
      case (Inr events)
      define s6 where "s6 =
        logger_log ''info'' StartingKeeperLoop
          (logger_log ''info'' IndexBuildComplete
            (updateIndex events
              (logger_log ''info'' (EventsToProcess (length events))
                (logger_log ''info'' (RebuildingIndex fromBlock)
                  (logger_log ''info'' MarketDeployed (s\<lparr>baseAsset := Some asset\<rparr>))))))"
      have s6: "blockTip s6 = blockTip s" "blockQueue s6 = blockQueue s"
        by (simp_all add: s6_def)
      have k: "blockTip (state_of (runKeepers c s6)) = blockTip s6"
        "blockQueue (state_of (runKeepers c s6)) = blockQueue s6"
        by simp_all
      have r: "run_startup c fromBlock s =
        (case runKeepers c s6 of
           Returned s7 \<Rightarrow> Returned (logger_log ''info'' ListeningForEvents s7)
         | Threw err s7 \<Rightarrow> Threw err s7
         | Exited status' s7 \<Rightarrow> Exited status' s7)"
        using asset Inr by (simp add: run_startup_def s6_def Let_def)
      show ?thesis
        unfolding r using k s6 by (cases "runKeepers c s6") simp_all
    qed
  qed
  then show "blockTip (state_of (run_startup c fromBlock s)) = blockTip s"
    "blockQueue (state_of (run_startup c fromBlock s)) = blockQueue s"
    by simp_all
qed

subsection \<open>The first block notification\<close>

text \<open>
  Claim C10. A block notification that finds no block tip only records the block as the
  tip. The keeper that \<^verbatim>\<open>run\<close> has started is in that state when it begins to
  listen: its tip is \<^verbatim>\<open>null\<close> and its queue is empty. So the first notification is
  not put in the queue, and however many iterations of the loop follow it, nothing is
  processed: the state is the one at the start of listening with the tip recorded, the
  index, the log and the metrics untouched. A second notification is put in the queue
  (when the first block number was not 0, which \<^verbatim>\<open>!this.blockTip\<close> takes for no tip).
\<close>

theorem first_block_notification_not_processed:
  "(blockTip s = None \<longrightarrow> onBlock blockNumber' s = s\<lparr>blockTip := Some blockNumber'\<rparr>)
   \<and> (run_startup c fromBlock new_Keeper = Returned s \<longrightarrow>
        blockTip s = None \<and> blockQueue s = []
        \<and> run_loop (BlockNotification blockNumber' # map LoopIteration cs) s
            = Returned (s\<lparr>blockTip := Some blockNumber'\<rparr>))
   \<and> (blockTip s = None \<and> blockNumber' \<noteq> 0 \<longrightarrow>
        blockQueue (onBlock second (onBlock blockNumber' s)) = blockQueue s @ [second])"
proof (intro conjI impI)
  assume "blockTip s = None"
  then show "onBlock blockNumber' s = s\<lparr>blockTip := Some blockNumber'\<rparr>"
    by (simp add: onBlock_def)
next
  assume r: "run_startup c fromBlock new_Keeper = Returned s"
  have "blockTip (state_of (run_startup c fromBlock new_Keeper)) = blockTip new_Keeper"
    "blockQueue (state_of (run_startup c fromBlock new_Keeper)) = blockQueue new_Keeper"
    by simp_all
  with r show tip: "blockTip s = None" and queue: "blockQueue s = []"
    by (simp_all add: new_Keeper_def)
  have "run_loop (map LoopIteration cs) (s\<lparr>blockTip := Some blockNumber'\<rparr>)
        = Returned (s\<lparr>blockTip := Some blockNumber'\<rparr>)"
    using queue by (intro run_loop_idle) simp
  then show "run_loop (BlockNotification blockNumber' # map LoopIteration cs) s
        = Returned (s\<lparr>blockTip := Some blockNumber'\<rparr>)"
    using tip by (simp add: onBlock_def)
next
  assume "blockTip s = None \<and> blockNumber' \<noteq> 0"
  then show "blockQueue (onBlock second (onBlock blockNumber' s)) = blockQueue s @ [second]"
    by (simp add: onBlock_def)
qed

lemma quiet_startup: "run_startup quiet_chain 0 new_Keeper = Returned listening_keeper"
  by (simp add: run_startup_def quiet_chain_def new_Keeper_def listening_keeper_def
      updateIndex_def runKeepers_def logger_log_def metrics_record_def Let_def)

text \<open>
  The theorem at a keeper started on a chain without events, for block 100 followed by
  two iterations of the loop.
\<close>

theorem first_block_notification_not_processed_witness:
  "blockTip listening_keeper = None
   \<and> run_startup quiet_chain 0 new_Keeper = Returned listening_keeper
   \<and> onBlock 100 listening_keeper = listening_keeper\<lparr>blockTip := Some 100\<rparr>
   \<and> run_loop [BlockNotification 100, LoopIteration quiet_chain, LoopIteration quiet_chain]
        listening_keeper
       = Returned (listening_keeper\<lparr>blockTip := Some 100\<rparr>)
   \<and> (100 :: nat) \<noteq> 0
   \<and> blockQueue (onBlock 101 (onBlock 100 listening_keeper)) = [101]"
proof -
  note t = first_block_notification_not_processed
    [of listening_keeper 100 quiet_chain 0 "[quiet_chain, quiet_chain]" 101]
  have tip: "blockTip listening_keeper = None"
    by (simp add: listening_keeper_def)
  have queue: "blockQueue listening_keeper = []"
    by (simp add: listening_keeper_def)
  from t tip have first: "onBlock 100 listening_keeper = listening_keeper\<lparr>blockTip := Some 100\<rparr>"
    by blast
  from t quiet_startup
  have idle: "run_loop [BlockNotification 100, LoopIteration quiet_chain, LoopIteration quiet_chain]
        listening_keeper
       = Returned (listening_keeper\<lparr>blockTip := Some 100\<rparr>)"
    by simp
  have nonzero: "(100 :: nat) \<noteq> 0"
    by simp
  from t tip nonzero
  have "blockQueue (onBlock 101 (onBlock 100 listening_keeper)) = blockQueue listening_keeper @ [101]"
    by blast
  then have second: "blockQueue (onBlock 101 (onBlock 100 listening_keeper)) = [101]"
    by (simp only: queue append_Nil)
  from tip quiet_startup first idle nonzero second show ?thesis
    by (intro conjI)
qed

lemma task_step_invariant:
  assumes "distinct inflight" and "set inflight = activeKeeperTasks s"
  shows "distinct (snd (task_step e (s, inflight)))
         \<and> set (snd (task_step e (s, inflight))) = activeKeeperTasks (fst (task_step e (s, inflight)))"
proof (cases e)
  case (Call id' l)
  with assms show ?thesis
    by (cases "id' \<in> activeKeeperTasks s")
      (auto simp: runKeeperTask_begin_Some runKeeperTask_begin_None)
next
  case (Settle id' l thrown)
  with assms show ?thesis
    by auto
qed

lemma task_steps_invariant:
  "distinct inflight \<Longrightarrow> set inflight = activeKeeperTasks s \<Longrightarrow>
   distinct (snd (fold task_step evs (s, inflight)))
   \<and> set (snd (fold task_step evs (s, inflight)))
       = activeKeeperTasks (fst (fold task_step evs (s, inflight)))"
proof (induction evs arbitrary: s inflight)
  case Nil
  then show ?case by simp
next
  case (Cons e evs)
  obtain s' inflight' where step: "task_step e (s, inflight) = (s', inflight')"
    by (cases "task_step e (s, inflight)")
  with task_step_invariant [OF Cons.prems, of e]
  have "distinct inflight'" "set inflight' = activeKeeperTasks s'"
    by simp_all
  from Cons.IH [OF this] show ?case
    by (simp add: step)
qed

subsection \<open>The running set\<close>

text \<open>
  Claim C1. When the id is in the running set, \<^verbatim>\<open>runKeeperTask\<close> returns the state as
  it is, whatever the callback: the callback is not invoked. Otherwise the id is put in
  the set, the callback is invoked on a state that has it in the set, and when the
  callback returns or throws, \<^verbatim>\<open>runKeeperTask\<close> returns (it does not throw) with the
  id taken out of the set the callback left; when the callback ends the process,
  nothing more runs. A call for the same id made while the callback runs does not
  invoke its own callback. And with any number of calls in flight, in any order of
  calls and of callbacks settling, the ids of the callbacks invoked and not yet settled
  are exactly the members of the running set, each of them once.
\<close>

theorem runKeeperTask_running_set:
  "(id' \<in> activeKeeperTasks s \<longrightarrow> runKeeperTask id' taskLabel cb s = Returned s)
   \<and> (id' \<notin> activeKeeperTasks s \<longrightarrow>
        (\<exists>s2. runKeeperTask_begin id' taskLabel s = Some s2
           \<and> activeKeeperTasks s2 = insert id' (activeKeeperTasks s)
           \<and> (\<forall>s3. cb s2 = Returned s3 \<longrightarrow>
                 (\<exists>s'. runKeeperTask id' taskLabel cb s = Returned s'
                    \<and> activeKeeperTasks s' = activeKeeperTasks s3 - {id'}))
           \<and> (\<forall>err s3. cb s2 = Threw err s3 \<longrightarrow>
                 (\<exists>s'. runKeeperTask id' taskLabel cb s = Returned s'
                    \<and> activeKeeperTasks s' = activeKeeperTasks s3 - {id'}))
           \<and> (\<forall>status' s3. cb s2 = Exited status' s3 \<longrightarrow>
                 runKeeperTask id' taskLabel cb s = Exited status' s3)))
   \<and> runKeeperTask id' taskLabel (runKeeperTask id' taskLabel' cb') s
       = runKeeperTask id' taskLabel Returned s
   \<and> distinct (snd (fold task_step evs (new_Keeper, [])))
   \<and> set (snd (fold task_step evs (new_Keeper, [])))
       = activeKeeperTasks (fst (fold task_step evs (new_Keeper, [])))"
proof (intro conjI impI)
  assume "id' \<in> activeKeeperTasks s"
  then show "runKeeperTask id' taskLabel cb s = Returned s"
    by (simp add: runKeeperTask_def)
next
  assume new: "id' \<notin> activeKeeperTasks s"
  let ?s2 = "logger_log ''info'' (Running taskLabel id')
               (s\<lparr>activeKeeperTasks := insert id' (activeKeeperTasks s)\<rparr>)"
  have b: "runKeeperTask_begin id' taskLabel s = Some ?s2"
    using new by (rule runKeeperTask_begin_Some)
  show "\<exists>s2. runKeeperTask_begin id' taskLabel s = Some s2
           \<and> activeKeeperTasks s2 = insert id' (activeKeeperTasks s)
           \<and> (\<forall>s3. cb s2 = Returned s3 \<longrightarrow>
                 (\<exists>s'. runKeeperTask id' taskLabel cb s = Returned s'
                    \<and> activeKeeperTasks s' = activeKeeperTasks s3 - {id'}))
           \<and> (\<forall>err s3. cb s2 = Threw err s3 \<longrightarrow>
                 (\<exists>s'. runKeeperTask id' taskLabel cb s = Returned s'
                    \<and> activeKeeperTasks s' = activeKeeperTasks s3 - {id'}))
           \<and> (\<forall>status' s3. cb s2 = Exited status' s3 \<longrightarrow>
                 runKeeperTask id' taskLabel cb s = Exited status' s3)"
    by (intro exI [of _ ?s2]) (simp add: b runKeeperTask_halves)
next
  show "runKeeperTask id' taskLabel (runKeeperTask id' taskLabel' cb') s
       = runKeeperTask id' taskLabel Returned s"
    by (cases "id' \<in> activeKeeperTasks s")
      (simp_all add: runKeeperTask_halves runKeeperTask_begin_Some runKeeperTask_begin_None)
next
  have "distinct (snd (fold task_step evs (new_Keeper, [])))
   \<and> set (snd (fold task_step evs (new_Keeper, [])))
       = activeKeeperTasks (fst (fold task_step evs (new_Keeper, [])))"
    by (rule task_steps_invariant) (simp_all add: new_Keeper_def)
  then show "distinct (snd (fold task_step evs (new_Keeper, [])))"
    and "set (snd (fold task_step evs (new_Keeper, [])))
       = activeKeeperTasks (fst (fold task_step evs (new_Keeper, [])))"
    by simp_all
qed

text \<open>
  The theorem at id 7, once with 7 in the running set and once without, for a callback
  that throws.
\<close>

theorem runKeeperTask_running_set_witness:
  "7 \<in> activeKeeperTasks (new_Keeper\<lparr>activeKeeperTasks := {7}\<rparr>)
   \<and> runKeeperTask 7 ''liquidation'' (Threw plain_error) (new_Keeper\<lparr>activeKeeperTasks := {7}\<rparr>)
       = Returned (new_Keeper\<lparr>activeKeeperTasks := {7}\<rparr>)
   \<and> 7 \<notin> activeKeeperTasks new_Keeper
   \<and> runKeeperTask 7 ''liquidation'' (Threw plain_error) new_Keeper
       = Returned (new_Keeper
           \<lparr>logs := [(''info'', Running ''liquidation'' 7),
                     (''error'', TaskError ''liquidation'' 7 plain_error),
                     (''info'', Done ''liquidation'' 7)],
            metrics := [KeeperErrors None]\<rparr>)
   \<and> snd (fold task_step
        [Call 7 ''liquidation'', Call 7 ''liquidation'', Settle 7 ''liquidation'' None,
         Call 7 ''liquidation'']
        (new_Keeper, [])) = [7]"
  using runKeeperTask_running_set
    [of 7 "new_Keeper\<lparr>activeKeeperTasks := {7}\<rparr>" "''liquidation''" "Threw plain_error"]
    runKeeperTask_running_set [of 7 new_Keeper "''liquidation''" "Threw plain_error"]
  by (simp add: new_Keeper_def runKeeperTask_def runKeeperTask_begin_def
      runKeeperTask_resume_def logger_log_def metrics_record_def Let_def)

lemma runKeeperTask_contains_throw:
  assumes "id' \<notin> activeKeeperTasks s"
    and "cb (logger_log ''info'' (Running l id')
              (s\<lparr>activeKeeperTasks := insert id' (activeKeeperTasks s)\<rparr>)) = Threw err s3"
  shows "runKeeperTask id' l cb s = Returned (runKeeperTask_resume id' l (Some err) s3)"
  using assms by (simp add: runKeeperTask_halves runKeeperTask_begin_Some)

lemma runKeeperTask_passes_exit:
  assumes "id' \<notin> activeKeeperTasks s"
    and "cb (logger_log ''info'' (Running l id')
              (s\<lparr>activeKeeperTasks := insert id' (activeKeeperTasks s)\<rparr>)) = Exited status' s3"
  shows "runKeeperTask id' l cb s = Exited status' s3"
  using assms by (simp add: runKeeperTask_halves runKeeperTask_begin_Some)

lemma runKeeperTask_resume_error [simp]:
  "metrics (runKeeperTask_resume id' l (Some err) s) = metrics s @ [KeeperErrors (baseAsset s)]"
  "logs (runKeeperTask_resume id' l (Some err) s)
     = logs s @ [(''error'', TaskError l id' err), (''info'', Done l id')]"
  by (simp_all add: runKeeperTask_resume_def Let_def)

subsection \<open>Errors of a submission\<close>

text \<open>
  Claim C5. Let the account be liquidatable and the submission fail with an error. When
  the error's code is not \<^verbatim>\<open>NONCE_EXPIRED\<close>, \<^verbatim>\<open>liquidateOrder\<close> records a failed
  liquidation and throws the same error; \<^verbatim>\<open>runKeeperTask\<close> around it returns
  normally, having logged the error and counted it in the keeper-errors metric, with
  the running set as it was. When the code is \<^verbatim>\<open>NONCE_EXPIRED\<close>, the failed
  liquidation is recorded and the process ends with status \<open>-1\<close>, through
  \<^verbatim>\<open>runKeeperTask\<close> as well. \<^verbatim>\<open>runKeeperTask\<close> never throws, whatever its callback.
\<close>

theorem submission_error_contained:
  assumes "canLiquidate c account = Inr True" and "submission c account = Inl err"
  shows "(err_code err \<noteq> Some ''NONCE_EXPIRED'' \<longrightarrow>
           (\<exists>s1. liquidateOrder c id' account s = Threw err s1
              \<and> metrics s1 = metrics s @ [FuturesLiquidations (baseAsset s) False])
           \<and> (id' \<notin> activeKeeperTasks s \<longrightarrow>
                (\<exists>s2. runKeeperTask id' taskLabel (liquidateOrder c id' account) s = Returned s2
                   \<and> metrics s2 = metrics s @ [FuturesLiquidations (baseAsset s) False,
                                                KeeperErrors (baseAsset s)]
                   \<and> (''error'', TaskError taskLabel id' err) \<in> set (logs s2)
                   \<and> activeKeeperTasks s2 = activeKeeperTasks s)))
       \<and> (err_code err = Some ''NONCE_EXPIRED'' \<longrightarrow>
           (\<exists>s1. liquidateOrder c id' account s = Exited (- 1) s1
              \<and> metrics s1 = metrics s @ [FuturesLiquidations (baseAsset s) False])
           \<and> (id' \<notin> activeKeeperTasks s \<longrightarrow>
                (\<exists>s2. runKeeperTask id' taskLabel (liquidateOrder c id' account) s
                         = Exited (- 1) s2)))
       \<and> (\<forall>cb e s'. runKeeperTask id' taskLabel cb s \<noteq> Threw e s')"
proof (intro conjI impI allI)
  assume other: "err_code err \<noteq> Some ''NONCE_EXPIRED''"
  from liquidateOrder_submission_Inl [OF assms, of s id'] other
  show "\<exists>s1. liquidateOrder c id' account s = Threw err s1
          \<and> metrics s1 = metrics s @ [FuturesLiquidations (baseAsset s) False]"
    by auto
  assume new: "id' \<notin> activeKeeperTasks s"
  let ?s2 = "logger_log ''info'' (Running taskLabel id')
               (s\<lparr>activeKeeperTasks := insert id' (activeKeeperTasks s)\<rparr>)"
  from liquidateOrder_submission_Inl [OF assms, of ?s2 id'] other
  obtain s3 where s3: "metrics s3 = metrics s" "baseAsset s3 = baseAsset s"
    "activeKeeperTasks s3 = insert id' (activeKeeperTasks s)"
    and l: "liquidateOrder c id' account ?s2
              = Threw err (metrics_record (FuturesLiquidations (baseAsset s) False) s3)"
    by auto
  from runKeeperTask_contains_throw [where cb = "liquidateOrder c id' account", OF new l] s3 new
  show "\<exists>s2. runKeeperTask id' taskLabel (liquidateOrder c id' account) s = Returned s2
          \<and> metrics s2 = metrics s @ [FuturesLiquidations (baseAsset s) False,
                                       KeeperErrors (baseAsset s)]
          \<and> (''error'', TaskError taskLabel id' err) \<in> set (logs s2)
          \<and> activeKeeperTasks s2 = activeKeeperTasks s"
    by simp
next
  assume fatal: "err_code err = Some ''NONCE_EXPIRED''"
  from liquidateOrder_submission_Inl [OF assms, of s id'] fatal
  show "\<exists>s1. liquidateOrder c id' account s = Exited (- 1) s1
          \<and> metrics s1 = metrics s @ [FuturesLiquidations (baseAsset s) False]"
    by auto
  assume new: "id' \<notin> activeKeeperTasks s"
  let ?s2 = "logger_log ''info'' (Running taskLabel id')
               (s\<lparr>activeKeeperTasks := insert id' (activeKeeperTasks s)\<rparr>)"
  from liquidateOrder_submission_Inl [OF assms, of ?s2 id'] fatal
  obtain s1 where "liquidateOrder c id' account ?s2 = Exited (- 1) s1"
    by auto
  from runKeeperTask_passes_exit [where cb = "liquidateOrder c id' account", OF new this]
  show "\<exists>s2. runKeeperTask id' taskLabel (liquidateOrder c id' account) s = Exited (- 1) s2"
    by blast
next
  fix cb e s'
  show "runKeeperTask id' taskLabel cb s \<noteq> Threw e s'"
    by (rule runKeeperTask_not_Threw)
qed

text \<open>
  The theorem for a task of id 7 on account \<open>A\<close>, once with a \<^verbatim>\<open>CALL_EXCEPTION\<close> and
  once with a \<^verbatim>\<open>NONCE_EXPIRED\<close> from the wait for the transaction.
\<close>

theorem submission_error_contained_witness:
  "canLiquidate (failing_chain call_exception) ''A'' = Inr True
   \<and> submission (failing_chain call_exception) ''A'' = Inl call_exception
   \<and> err_code call_exception \<noteq> Some ''NONCE_EXPIRED''
   \<and> 7 \<notin> activeKeeperTasks new_Keeper
   \<and> runKeeperTask 7 ''liquidation'' (liquidateOrder (failing_chain call_exception) 7 ''A'')
        new_Keeper
       = Returned (new_Keeper
           \<lparr>logs := [(''info'', Running ''liquidation'' 7),
                     (''info'', BeginLiquidatePosition 7),
                     (''debug'', SubmitLiquidatePosition 7 3),
                     (''error'', TaskError ''liquidation'' 7 call_exception),
                     (''info'', Done ''liquidation'' 7)],
            metrics := [FuturesLiquidations None False, KeeperErrors None]\<rparr>)
   \<and> submission (failing_chain nonce_expired) ''A'' = Inl nonce_expired
   \<and> err_code nonce_expired = Some ''NONCE_EXPIRED''
   \<and> runKeeperTask 7 ''liquidation'' (liquidateOrder (failing_chain nonce_expired) 7 ''A'')
        new_Keeper
       = Exited (- 1) (new_Keeper
           \<lparr>activeKeeperTasks := {7},
            logs := [(''info'', Running ''liquidation'' 7),
                     (''info'', BeginLiquidatePosition 7),
                     (''debug'', SubmitLiquidatePosition 7 3),
                     (''error'', FatalError nonce_expired)],
            metrics := [FuturesLiquidations None False]\<rparr>)"
  using submission_error_contained
    [of "failing_chain call_exception" "''A''" call_exception 7 new_Keeper "''liquidation''"]
    submission_error_contained
    [of "failing_chain nonce_expired" "''A''" nonce_expired 7 new_Keeper "''liquidation''"]
  by (simp add: failing_chain_def call_exception_def nonce_expired_def submission_def
      new_Keeper_def runKeeperTask_def liquidateOrder_def logger_log_def metrics_record_def
      Let_def)

text \<open>
  Claim C4. Let the account be liquidatable and the submission fail with an error of
  code \<^verbatim>\<open>NONCE_EXPIRED\<close>. Then \<^verbatim>\<open>liquidateOrder\<close> ends the process with status
  \<open>-1\<close>, which is not zero; \<^verbatim>\<open>runKeeperTask\<close> does not catch it; and a pass of the
  scheduler that reaches the entry of that account ends there, the entries after it
  never offered. Once a run of the driver has ended the process, the status is \<open>-1\<close>
  and nothing that would have followed takes place: the run extended by any further
  notifications and iterations ends in the same exit with the same state, so there is
  one exit and no later pass.
\<close>

theorem fatal_sequencing_error_halts:
  assumes "canLiquidate c account = Inr True" and "submission c account = Inl err"
    and "err_code err = Some ''NONCE_EXPIRED''"
  shows "(\<exists>s1. liquidateOrder c id' account s = Exited (- 1) s1)
       \<and> (id' \<notin> activeKeeperTasks s \<longrightarrow>
            (\<exists>s1. runKeeperTask id' taskLabel (liquidateOrder c id' account) s = Exited (- 1) s1))
       \<and> (runKeepers_loop c ps s0 = Returned s \<and> pos_id p \<notin> activeKeeperTasks s
            \<and> pos_account p = account \<longrightarrow>
            (\<exists>s1. runKeepers_loop c (ps @ p # qs) s0 = Exited (- 1) s1))
       \<and> (run_loop es t = Exited status' t' \<longrightarrow>
            status' = - 1 \<and> status' \<noteq> 0 \<and> run_loop (es @ es') t = Exited status' t')"
proof (intro conjI impI)
  from liquidateOrder_submission_Inl [OF assms(1,2), of s id'] assms(3)
  show "\<exists>s1. liquidateOrder c id' account s = Exited (- 1) s1"
    by auto
next
  assume new: "id' \<notin> activeKeeperTasks s"
  let ?s2 = "logger_log ''info'' (Running taskLabel id')
               (s\<lparr>activeKeeperTasks := insert id' (activeKeeperTasks s)\<rparr>)"
  from liquidateOrder_submission_Inl [OF assms(1,2), of ?s2 id'] assms(3)
  obtain s1 where "liquidateOrder c id' account ?s2 = Exited (- 1) s1"
    by auto
  from runKeeperTask_passes_exit [where cb = "liquidateOrder c id' account", OF new this]
  show "\<exists>s1. runKeeperTask id' taskLabel (liquidateOrder c id' account) s = Exited (- 1) s1"
    by blast
next
  assume a: "runKeepers_loop c ps s0 = Returned s \<and> pos_id p \<notin> activeKeeperTasks s
            \<and> pos_account p = account"
  let ?s2 = "logger_log ''info'' (Running ''liquidation'' (pos_id p))
               (s\<lparr>activeKeeperTasks := insert (pos_id p) (activeKeeperTasks s)\<rparr>)"
  from liquidateOrder_submission_Inl [OF assms(1,2), of ?s2 "pos_id p"] assms(3)
  obtain s1 where "liquidateOrder c (pos_id p) account ?s2 = Exited (- 1) s1"
    by auto
  with a have "runKeeperTask (pos_id p) ''liquidation''
                 (liquidateOrder c (pos_id p) (pos_account p)) s = Exited (- 1) s1"
    by (intro runKeeperTask_passes_exit [where cb = "liquidateOrder c (pos_id p) (pos_account p)"])
      simp_all
  with a show "\<exists>s1. runKeepers_loop c (ps @ p # qs) s0 = Exited (- 1) s1"
    by (simp add: runKeepers_loop_append)
next
  assume e: "run_loop es t = Exited status' t'"
  then show "status' = - 1" by (rule run_loop_Exited)
  then show "status' \<noteq> 0" by simp
  from e show "run_loop (es @ es') t = Exited status' t'"
    by (simp add: run_loop_append)
qed

text \<open>
  A keeper with one position and two blocks queued, on a chain whose wait for the
  transaction fails with \<^verbatim>\<open>NONCE_EXPIRED\<close>: the first iteration ends the process.
\<close>

lemma fatal_iteration:
  "run_loop [LoopIteration (failing_chain nonce_expired)] one_position_keeper
     = Exited (- 1) halted_keeper"
  by (simp add: failing_chain_def nonce_expired_def one_position_keeper_def halted_keeper_def
      processNewBlock_def updateIndex_def runKeepers_def runKeeperTask_def liquidateOrder_def
      logger_log_def metrics_record_def Let_def)

text \<open>The theorem at that keeper, with a notification and an iteration to follow.\<close>

theorem fatal_sequencing_error_halts_witness:
  "canLiquidate (failing_chain nonce_expired) ''A'' = Inr True
   \<and> submission (failing_chain nonce_expired) ''A'' = Inl nonce_expired
   \<and> err_code nonce_expired = Some ''NONCE_EXPIRED''
   \<and> 7 \<notin> activeKeeperTasks one_position_keeper
   \<and> runKeepers_loop (failing_chain nonce_expired) [] one_position_keeper
       = Returned one_position_keeper
   \<and> (- 1 :: int) \<noteq> 0
   \<and> run_loop [LoopIteration (failing_chain nonce_expired)] one_position_keeper
       = Exited (- 1) halted_keeper
   \<and> run_loop ([LoopIteration (failing_chain nonce_expired)]
          @ [BlockNotification 102, LoopIteration (failing_chain nonce_expired)])
        one_position_keeper
       = Exited (- 1) halted_keeper"
  using fatal_sequencing_error_halts
    [of "failing_chain nonce_expired" "''A''" nonce_expired 7 one_position_keeper
      "''liquidation''" "[]" one_position_keeper
      "\<lparr>pos_id = 7, pos_event = ''PositionModified'', pos_account = ''A'', pos_size = 5\<rparr>"
      "[]" "[LoopIteration (failing_chain nonce_expired)]" one_position_keeper "- 1"
      halted_keeper "[BlockNotification 102, LoopIteration (failing_chain nonce_expired)]"]
    fatal_iteration
  by (simp add: failing_chain_def nonce_expired_def submission_def one_position_keeper_def)

subsection \<open>The libraries' helpers\<close>

lemma try_map_Inr:
  "(\<And>x. x \<in> set xs \<Longrightarrow> f x = Inr (g x)) \<Longrightarrow> try_map f xs = Inr (map g xs)"
  by (induction xs) simp_all

lemma chunk_Nil [simp]: "chunk [] n = []"
  by (subst chunk.simps) simp

lemma chunk_step:
  "0 < n \<Longrightarrow> xs \<noteq> [] \<Longrightarrow> chunk xs n = take n xs # chunk (drop n xs) n"
  by (subst chunk.simps) simp

lemma concat_chunk: "0 < n \<Longrightarrow> concat (chunk xs n) = xs"
proof (induction xs n rule: chunk.induct)
  case (1 xs n)
  show ?case
  proof (cases "xs = []")
    case True
    then show ?thesis by simp
  next
    case False
    with 1 show ?thesis by (simp add: chunk_step)
  qed
qed

lemma length_chunk: "0 < n \<Longrightarrow> length (chunk xs n) = (length xs + n - 1) div n"
proof (induction xs n rule: chunk.induct)
  case (1 xs n)
  show ?case
  proof (cases "xs = []")
    case True
    with 1(2) show ?thesis by simp
  next
    case False
    then have pos: "0 < length xs" by simp
    have IH: "length (chunk (drop n xs) n) = (length (drop n xs) + n - 1) div n"
      using 1 False by simp
    show ?thesis
    proof (cases "n \<le> length xs")
      case True
      then have "length xs + n - 1 = (length xs - n + n - 1) + n"
        using 1(2) by arith
      then have "(length xs + n - 1) div n = (length xs - n + n - 1) div n + 1"
        using 1(2) by (metis div_add_self2 less_numeral_extra(3))
      with IH False 1(2) show ?thesis by (simp add: chunk_step)
    next
      case short: False
      then have "drop n xs = []" by simp
      moreover have "(length xs + n - 1) div n = 1"
      proof -
        have "length xs + n - 1 = (length xs - 1) + n"
          using pos by arith
        moreover have "(length xs - 1) div n = 0"
          using pos short by simp
        ultimately show ?thesis
          using 1(2) by (metis div_add_self2 less_numeral_extra(3) add_0)
      qed
      ultimately show ?thesis using False 1(2) by (simp add: chunk_step)
    qed
  qed
qed

text \<open>The number of batches is the quotient rounded up.\<close>

lemma ceiling_div:
  fixes K L :: nat
  assumes "0 < L"
  shows "(K + L - 1) div L = nat \<lceil>real K / real L\<rceil>"
proof -
  define n where "n = (K + L - 1) div L"
  have up: "K + L - 1 < L + n * L"
    unfolding n_def using assms by (rule dividend_less_div_times)
  have down: "n * L \<le> K + L - 1"
    unfolding n_def by (rule div_times_less_eq_dividend)
  have le: "real K \<le> real n * real L"
  proof -
    from up assms have "K \<le> n * L" by simp
    then show ?thesis by (metis of_nat_le_iff of_nat_mult)
  qed
  have gt: "real n * real L < real K + real L"
  proof -
    from down assms have "n * L < K + L" by simp
    then show ?thesis by (metis of_nat_less_iff of_nat_mult of_nat_add)
  qed
  have L: "0 < real L" using assms by simp
  have "\<lceil>real K / real L\<rceil> = int n"
  proof (rule ceiling_unique)
    show "real_of_int (int n) - 1 < real K / real L"
      using gt L by (simp add: field_simps)
    show "real K / real L \<le> real_of_int (int n)"
      using le L by (simp add: field_simps)
  qed
  then show ?thesis by (simp add: n_def)
qed

lemma set_chunk: "0 < n \<Longrightarrow> batch \<in> set (chunk xs n) \<Longrightarrow> set batch \<subseteq> set xs \<and> length batch \<le> n"
proof (induction xs n rule: chunk.induct)
  case (1 xs n)
  show ?case
  proof (cases "xs = []")
    case True
    with 1(3) show ?thesis by simp
  next
    case False
    with 1(2,3) have "batch = take n xs \<or> batch \<in> set (chunk (drop n xs) n)"
      by (simp add: chunk_step)
    then show ?thesis
    proof
      assume "batch = take n xs"
      then show ?thesis by (auto dest: in_set_takeD)
    next
      assume "batch \<in> set (chunk (drop n xs) n)"
      with 1(1) [OF _ 1(2)] False 1(2) have "set batch \<subseteq> set (drop n xs) \<and> length batch \<le> n"
        by simp
      then show ?thesis by (auto dest: in_set_dropD)
    qed
  qed
qed

subsection \<open>The pages\<close>

lemma number_of_pages:
  fixes N P :: nat
  assumes "0 < P"
  shows "(N + P - 1) div P = (if N mod P = 0 then N div P else N div P + 1)"
proof -
  define q where "q = N div P"
  define r where "r = N mod P"
  have N: "N = P * q + r" and r: "r < P"
    using assms by (simp_all add: q_def r_def)
  show ?thesis
  proof (cases "r = 0")
    case True
    have "(N + P - 1) div P = q"
    proof (rule div_nat_eqI)
      show "P * q \<le> N + P - 1" using N True assms by simp
      show "N + P - 1 < P * Suc q" using N True assms by simp
    qed
    with True show ?thesis by (simp add: q_def r_def)
  next
    case False
    have "(N + P - 1) div P = Suc q"
    proof (rule div_nat_eqI)
      show "P * Suc q \<le> N + P - 1" using N False by simp
      show "N + P - 1 < P * Suc (Suc q)" using N r False by simp
    qed
    with False show ?thesis by (simp add: q_def r_def)
  qed
qed

lemma pages_bounds:
  fixes N P :: nat
  assumes "0 < P" and "0 < N"
  shows "N \<le> ((N + P - 1) div P) * P" and "((N + P - 1) div P - 1) * P < N"
    and "0 < (N + P - 1) div P"
proof -
  define n where "n = (N + P - 1) div P"
  have up: "N + P - 1 < P + n * P"
    unfolding n_def using assms(1) by (rule dividend_less_div_times)
  have down: "n * P \<le> N + P - 1"
    unfolding n_def by (rule div_times_less_eq_dividend)
  show a: "N \<le> ((N + P - 1) div P) * P"
    using up assms by (simp add: n_def)
  show c: "0 < (N + P - 1) div P"
    using a assms(2) by (cases "(N + P - 1) div P") simp_all
  have "(n - 1) * P = n * P - P"
    by (simp add: diff_mult_distrib)
  with down assms have "(n - 1) * P < N"
    by simp
  then show "((N + P - 1) div P - 1) * P < N"
    by (simp add: n_def)
qed

lemma page_start_below:
  fixes N P :: nat
  assumes "0 < P" and "0 < N" and "i < (N + P - 1) div P"
  shows "i * P < N"
proof -
  from assms(3) have "i \<le> (N + P - 1) div P - 1" by arith
  then have "i * P \<le> ((N + P - 1) div P - 1) * P" by (rule mult_le_mono1)
  then show ?thesis using pages_bounds(2) [OF assms(1,2)] by (rule le_less_trans)
qed

lemma pages_prefix:
  fixes N P :: nat
  assumes "0 < P" and "0 < N"
  shows "k \<le> (N + P - 1) div P \<Longrightarrow>
         concat (map page_range (map (\<lambda>i. (i * P, min P (N - i * P))) [0..<k]))
         = [0..<min (k * P) N]"
proof (induction k)
  case 0
  then show ?case by simp
next
  case (Suc k)
  then have k: "k < (N + P - 1) div P" by simp
  from page_start_below [OF assms k] have below: "k * P < N" .
  have "k * P + min P (N - k * P) = min (k * P + P) N"
    using below by arith
  then have "k * P + min P (N - k * P) = min (Suc k * P) N"
    by (simp add: add.commute)
  then have page: "page_range (k * P, min P (N - k * P)) = [k * P..<min (Suc k * P) N]"
    by (simp add: page_range_def)
  have prev: "concat (map page_range (map (\<lambda>i. (i * P, min P (N - i * P))) [0..<k]))
              = [0..<k * P]"
    using Suc below by (simp add: min_def)
  have "k * P \<le> min (Suc k * P) N" using below by simp
  then have "[0..<k * P] @ [k * P..<min (Suc k * P) N] = [0..<min (Suc k * P) N]"
    using upt_add_eq_append [of 0 "k * P" "min (Suc k * P) N - k * P"] by simp
  with page prev show ?case
    by (simp del: mult_Suc)
qed

lemma set_page_range: "set (page_range (a, s)) = {a..<a + s}"
  by (simp add: page_range_def)

lemma computePages_nth:
  "i < length (computePages N P) \<Longrightarrow> computePages N P ! i = (i * P, min P (N - i * P))"
  by (simp add: computePages_def)

lemma length_computePages: "length (computePages N P) = (N + P - 1) div P"
  by (simp add: computePages_def)

lemma computePages_example: "computePages 1500 1000 = [(0, 1000), (1000, 500)]"
proof -
  have "(1500 + 1000 - 1) div 1000 = (2 :: nat)" by simp
  moreover have "[0..<2] = [0, Suc 0]" by (simp add: upt_rec)
  ultimately show ?thesis by (simp add: computePages_def)
qed

text \<open>
  Claim C2, for the page computation as the spec describes it. For a count above 0 and
  a page size above 0, the ranges of the pages, one after the other, are the indices
  from 0 up to the count in order: the pages cover \<open>[0, count)\<close> without a gap or an
  overlap. Any two pages are disjoint, their union is \<open>[0, count)\<close>, every page holds
  at least one index and at most the page size, and the last page holds the remainder
  of the count by the page size, or a whole page when the page size divides the count.
  For 1500 and 1000 the pages are \<open>(0, 1000)\<close> and \<open>(1000, 500)\<close>.
\<close>

theorem computePages_cover:
  assumes "0 < count" and "0 < maxPageSize"
  shows "concat (map page_range (computePages count maxPageSize)) = [0..<count]
       \<and> (\<forall>i j. i < j \<and> j < length (computePages count maxPageSize) \<longrightarrow>
             set (page_range (computePages count maxPageSize ! i))
             \<inter> set (page_range (computePages count maxPageSize ! j)) = {})
       \<and> (\<Union>page \<in> set (computePages count maxPageSize). set (page_range page)) = {0..<count}
       \<and> (\<forall>page \<in> set (computePages count maxPageSize).
             0 < snd page \<and> snd page \<le> maxPageSize)
       \<and> computePages count maxPageSize \<noteq> []
       \<and> snd (last (computePages count maxPageSize))
           = (if count mod maxPageSize = 0 then maxPageSize else count mod maxPageSize)
       \<and> computePages 1500 1000 = [(0, 1000), (1000, 500)]"
proof -
  define n where "n = (count + maxPageSize - 1) div maxPageSize"
  note bounds = pages_bounds [OF assms(2,1), folded n_def]
  have len: "length (computePages count maxPageSize) = n"
    by (simp add: length_computePages n_def)
  have below: "i * maxPageSize < count" if "i < n" for i
    using page_start_below [OF assms(2,1)] that by (simp add: n_def)
  have cover: "concat (map page_range (computePages count maxPageSize)) = [0..<count]"
  proof -
    have "concat (map page_range (computePages count maxPageSize))
          = [0..<min (n * maxPageSize) count]"
      unfolding computePages_def n_def by (rule pages_prefix [OF assms(2,1) order_refl])
    moreover have "min (n * maxPageSize) count = count"
      using bounds(1) by simp
    ultimately show ?thesis by simp
  qed
  have disjoint: "set (page_range (computePages count maxPageSize ! i))
        \<inter> set (page_range (computePages count maxPageSize ! j)) = {}"
    if "i < j \<and> j < length (computePages count maxPageSize)" for i j
  proof -
    from that have "Suc i \<le> j" by simp
    then have "Suc i * maxPageSize \<le> j * maxPageSize" by (rule mult_le_mono1)
    then have "i * maxPageSize + min maxPageSize (count - i * maxPageSize) \<le> j * maxPageSize"
      by simp
    then show ?thesis
      using that by (auto simp: computePages_nth set_page_range)
  qed
  have union: "(\<Union>page \<in> set (computePages count maxPageSize). set (page_range page))
      = {0..<count}"
  proof -
    have "(\<Union>page \<in> set (computePages count maxPageSize). set (page_range page))
          = set (concat (map page_range (computePages count maxPageSize)))"
      by simp
    then show ?thesis by (simp only: cover set_upt)
  qed
  have sizes: "0 < snd page \<and> snd page \<le> maxPageSize"
    if "page \<in> set (computePages count maxPageSize)" for page
  proof -
    from that obtain i where "i < n" "page = (i * maxPageSize, min maxPageSize (count - i * maxPageSize))"
      by (auto simp: computePages_def n_def)
    with below [of i] assms(2) show ?thesis by simp
  qed
  have nonempty: "computePages count maxPageSize \<noteq> []"
    using len bounds(3) by auto
  have last_page: "snd (last (computePages count maxPageSize))
      = (if count mod maxPageSize = 0 then maxPageSize else count mod maxPageSize)"
  proof -
    have "last (computePages count maxPageSize) = computePages count maxPageSize ! (n - 1)"
      using nonempty len by (simp add: last_conv_nth)
    also have "\<dots> = ((n - 1) * maxPageSize, min maxPageSize (count - (n - 1) * maxPageSize))"
      using bounds(3) len by (simp add: computePages_nth)
    finally have l: "snd (last (computePages count maxPageSize))
        = min maxPageSize (count - (n - 1) * maxPageSize)"
      by simp
    have split: "count = (count div maxPageSize) * maxPageSize + count mod maxPageSize"
      by simp
    show ?thesis
    proof (cases "count mod maxPageSize = 0")
      case True
      then have n: "n = count div maxPageSize"
        using number_of_pages [OF assms(2), of count] by (simp add: n_def)
      have "count = n * maxPageSize" using split True n by simp
      moreover have "n * maxPageSize - (n - 1) * maxPageSize = maxPageSize"
        using bounds(3) by (simp add: diff_mult_distrib)
      ultimately show ?thesis using l True by simp
    next
      case False
      then have n: "n - 1 = count div maxPageSize"
        using number_of_pages [OF assms(2), of count] by (simp add: n_def)
      have "count - (n - 1) * maxPageSize = count mod maxPageSize"
        using split n by (metis add_diff_cancel_left')
      moreover have "count mod maxPageSize < maxPageSize"
        using assms(2) by simp
      ultimately show ?thesis using l False by simp
    qed
  qed
  from cover disjoint union sizes nonempty last_page computePages_example show ?thesis
    by (intro conjI allI impI ballI) auto
qed

text \<open>The theorem at the count 1500 and the page size 1000.\<close>

theorem computePages_cover_witness:
  "(0 :: nat) < 1500 \<and> (0 :: nat) < 1000
   \<and> concat (map page_range (computePages 1500 1000)) = [0..<1500]
   \<and> snd (last (computePages 1500 1000)) = 500
   \<and> computePages 1500 1000 = [(0, 1000), (1000, 500)]"
proof -
  have a: "(0 :: nat) < 1500" and b: "(0 :: nat) < 1000"
    by simp_all
  note t = computePages_cover [OF a b]
  from t have c: "concat (map page_range (computePages 1500 1000)) = [0..<1500]"
    by (rule conjunct1)
  from t have l: "snd (last (computePages 1500 1000)) = 500"
    by simp
  from t have e: "computePages 1500 1000 = [(0, 1000), (1000, 500)]"
    by simp
  from a b c l e show ?thesis
    by (intro conjI)
qed

subsection \<open>The counts\<close>

lemma lengths_forEach_fold:
  assumes "\<And>k. k \<in> set keys \<Longrightarrow>
      \<exists>m. lookup_market markets k = Inr m
        \<and> decode_uint r fn (dataf k) = Inr (len k)"
  shows "lengths_forEach r markets fn (zip (map dataf keys) keys) acc
         = Inr (fold (\<lambda>k acc. if len k > 0 then AList.update k (len k) acc else acc) keys acc)"
  using assms
proof (induction keys arbitrary: acc)
  case Nil
  then show ?case by simp
next
  case (Cons k keys)
  from Cons.prems [of k] obtain m where
    "lookup_market markets k = Inr m" "decode_uint r fn (dataf k) = Inr (len k)"
    by auto
  moreover have "lengths_forEach r markets fn (zip (map dataf keys) keys) acc'
      = Inr (fold (\<lambda>k acc. if len k > 0 then AList.update k (len k) acc else acc) keys acc')"
    for acc'
    using Cons.prems by (intro Cons.IH) simp
  ultimately show ?case by simp
qed

lemma map_of_fold_lengths:
  "map_of (fold (\<lambda>k acc. if len k > 0 then AList.update k (len k) acc else acc) keys acc) k
   = (if k \<in> set keys \<and> len k > (0::nat) then Some (len k) else map_of acc k)"
  by (induction keys arbitrary: acc) (auto simp: update_conv')

lemma update_fresh: "k \<notin> fst ` set al \<Longrightarrow> AList.update k v al = al @ [(k, v)]"
  by (induction al) auto

lemma fold_lengths_distinct:
  "distinct keys \<Longrightarrow> set keys \<inter> fst ` set acc = {} \<Longrightarrow>
   fold (\<lambda>k acc. if len k > 0 then AList.update k (len k) acc else acc) keys acc
   = acc @ map (\<lambda>k. (k, len k)) (filter (\<lambda>k. len k > (0::nat)) keys)"
proof (induction keys arbitrary: acc)
  case Nil
  then show ?case by simp
next
  case (Cons k keys)
  show ?case
  proof (cases "len k > 0")
    case True
    have "k \<notin> fst ` set acc" using Cons.prems by auto
    then have u: "AList.update k (len k) acc = acc @ [(k, len k)]"
      by (rule update_fresh)
    have "set keys \<inter> fst ` set (acc @ [(k, len k)]) = {}"
      using Cons.prems by auto
    with Cons.IH [of "acc @ [(k, len k)]"] Cons.prems True u show ?thesis
      by simp
  next
    case False
    with Cons.IH [of acc] Cons.prems show ?thesis by auto
  qed
qed

text \<open>
  Claim C7. Let the count of every market be readable at the pinned block. Then
  \<^verbatim>\<open>getAddressLengthByMarket\<close> makes one aggregate request and returns a record that
  maps a market key to \<open>n\<close> exactly when the key is a market, its count on the chain is
  \<open>n\<close>, and \<open>n\<close> is not zero: the markets of count zero are left out. Its entries are
  the markets of nonzero count in the order of the markets, each with its count.
\<close>

theorem getAddressLengthByMarket_nonzero:
  assumes "\<forall>marketKey \<in> set (map fst markets).
             \<exists>n. market_length r markets block' type' marketKey = Inr n"
  shows "\<exists>calls result.
           getAddressLengthByMarket r markets block' type' = ([calls], Inr result)
           \<and> (\<forall>marketKey n. map_of result marketKey = Some n \<longleftrightarrow>
                 marketKey \<in> set (map fst markets)
                 \<and> market_length r markets block' type' marketKey = Inr n \<and> n \<noteq> 0)
           \<and> (distinct (map fst markets) \<longrightarrow>
                 map (\<lambda>(marketKey, n). (marketKey, Inr n)) result
                 = filter (\<lambda>(marketKey, n). n \<noteq> Inr 0)
                     (map (\<lambda>marketKey. (marketKey, market_length r markets block' type' marketKey))
                        (map fst markets)))"
proof -
  define fn where "fn = lengthFunctionName type'"
  define keys where "keys = map fst markets"
  define callf where "callf = (\<lambda>k.
    \<lparr>target = state_address (projr (lookup_market markets k)), callData = (fn, [])\<rparr>)"
  define dataf where "dataf = (\<lambda>k. projr (aggregate_call r (block_number block') (callf k)))"
  define len where "len = (\<lambda>k. projr (market_length r markets block' type' k))"
  have ok: "\<exists>m. lookup_market markets k = Inr m
              \<and> aggregate_call r (block_number block') (callf k) = Inr (dataf k)
              \<and> decode_uint r fn (dataf k) = Inr (len k)
              \<and> market_length r markets block' type' k = Inr (len k)"
    if "k \<in> set keys" for k
  proof -
    from assms that obtain n where n: "market_length r markets block' type' k = Inr n"
      by (auto simp: keys_def)
    then show ?thesis
      by (auto simp: market_length_def callf_def dataf_def len_def fn_def split: sum.splits)
  qed
  have calls: "try_map (\<lambda>marketKey.
                 case lookup_market markets marketKey of
                   Inl err \<Rightarrow> Inl err
                 | Inr m \<Rightarrow> Inr \<lparr>target = state_address m, callData = (fn, [])\<rparr>) keys
               = Inr (map callf keys)"
  proof (rule try_map_Inr)
    fix k assume "k \<in> set keys"
    from ok [OF this] show "(case lookup_market markets k of
                   Inl err \<Rightarrow> Inl err
                 | Inr m \<Rightarrow> Inr \<lparr>target = state_address m, callData = (fn, [])\<rparr>) = Inr (callf k)"
      by (auto simp: callf_def)
  qed
  have datas: "aggregate r (map callf keys) (block_number block') = Inr (map dataf keys)"
  proof -
    have "try_map (aggregate_call r (block_number block')) (map callf keys)
          = Inr (map (\<lambda>c. projr (aggregate_call r (block_number block') c)) (map callf keys))"
    proof (rule try_map_Inr)
      fix c assume "c \<in> set (map callf keys)"
      then obtain k where "k \<in> set keys" "c = callf k" by auto
      with ok [of k] show "aggregate_call r (block_number block') c
            = Inr (projr (aggregate_call r (block_number block') c))"
        by auto
    qed
    then show ?thesis by (simp add: aggregate_def dataf_def comp_def)
  qed
  define result where
    "result = fold (\<lambda>k acc. if len k > 0 then AList.update k (len k) acc else acc) keys []"
  have each: "lengths_forEach r markets fn (zip (map dataf keys) keys) [] = Inr result"
    unfolding result_def
  proof (rule lengths_forEach_fold)
    fix k assume "k \<in> set keys"
    from ok [OF this] show "\<exists>m. lookup_market markets k = Inr m
        \<and> decode_uint r fn (dataf k) = Inr (len k)"
      by auto
  qed
  have run: "getAddressLengthByMarket r markets block' type' = ([map callf keys], Inr result)"
    using calls datas each
    by (simp add: getAddressLengthByMarket_def Let_def fn_def [symmetric] keys_def [symmetric])
  have iff: "map_of result k = Some n \<longleftrightarrow>
      k \<in> set (map fst markets) \<and> market_length r markets block' type' k = Inr n \<and> n \<noteq> 0"
    for k n
  proof (cases "k \<in> set keys")
    case True
    from ok [OF True] have "market_length r markets block' type' k = Inr (len k)"
      by auto
    with True show ?thesis
      by (auto simp: result_def map_of_fold_lengths keys_def)
  next
    case False
    then show ?thesis
      by (auto simp: result_def map_of_fold_lengths keys_def)
  qed
  have ordered: "map (\<lambda>(marketKey, n). (marketKey, Inr n)) result
      = filter (\<lambda>(marketKey, n). n \<noteq> Inr 0)
          (map (\<lambda>marketKey. (marketKey, market_length r markets block' type' marketKey))
             (map fst markets))"
    if d: "distinct (map fst markets)"
  proof -
    have "result = map (\<lambda>k. (k, len k)) (filter (\<lambda>k. len k > 0) keys)"
      unfolding result_def using fold_lengths_distinct [of keys "[]" len] d
      by (simp add: keys_def)
    moreover have "market_length r markets block' type' k = Inr (len k)" if "k \<in> set keys" for k
      using ok [OF that] by auto
    ultimately show ?thesis
      unfolding keys_def [symmetric]
      by (simp add: filter_map comp_def cong: filter_cong map_cong)
  qed
  show ?thesis
  proof (rule exI [of _ "map callf keys"], rule exI [of _ result], intro conjI allI impI)
    show "getAddressLengthByMarket r markets block' type' = ([map callf keys], Inr result)"
      by (rule run)
  next
    fix marketKey n
    show "map_of result marketKey = Some n \<longleftrightarrow>
      marketKey \<in> set (map fst markets)
      \<and> market_length r markets block' type' marketKey = Inr n \<and> n \<noteq> 0"
      by (rule iff)
  next
    assume "distinct (map fst markets)"
    then show "map (\<lambda>(marketKey, n). (marketKey, Inr n)) result
      = filter (\<lambda>(marketKey, n). n \<noteq> Inr 0)
          (map (\<lambda>marketKey. (marketKey, market_length r markets block' type' marketKey))
             (map fst markets))"
      by (rule ordered)
  qed
qed

text \<open>
  Three markets \<open>A\<close>, \<open>B\<close> and \<open>C\<close> whose counts on the chain are 0, 1500 and 3.
\<close>

lemma counts_lookup:
  "lookup_market three_markets ''A''
     = Inr \<lparr>contract_address = ''marketA'', state_address = ''stateA'', asset = ''sA''\<rparr>"
  "lookup_market three_markets ''B''
     = Inr \<lparr>contract_address = ''marketB'', state_address = ''stateB'', asset = ''sB''\<rparr>"
  "lookup_market three_markets ''C''
     = Inr \<lparr>contract_address = ''marketC'', state_address = ''stateC'', asset = ''sC''\<rparr>"
  by (simp_all add: three_markets_def lookup_market_def)

lemma counts_data:
  "aggregate_call counts_rpc blockTag \<lparr>target = ''stateA'', callData = d\<rparr> = Inr ''0x0''"
  "aggregate_call counts_rpc blockTag \<lparr>target = ''stateB'', callData = d\<rparr> = Inr ''0x5dc''"
  "aggregate_call counts_rpc blockTag \<lparr>target = ''stateC'', callData = d\<rparr> = Inr ''0x3''"
  by (simp_all add: counts_rpc_def)

lemma counts_decode:
  "decode_uint counts_rpc fn ''0x0'' = Inr 0"
  "decode_uint counts_rpc fn ''0x5dc'' = Inr 1500"
  "decode_uint counts_rpc fn ''0x3'' = Inr 3"
  by (simp_all add: counts_rpc_def)

lemma counts_lengths:
  "market_length counts_rpc three_markets pinned_block POSITION ''A'' = Inr 0"
  "market_length counts_rpc three_markets pinned_block POSITION ''B'' = Inr 1500"
  "market_length counts_rpc three_markets pinned_block POSITION ''C'' = Inr 3"
  by (simp_all add: market_length_def counts_lookup counts_data counts_decode)

lemma counts_all:
  "\<forall>marketKey \<in> set (map fst three_markets).
      \<exists>n. market_length counts_rpc three_markets pinned_block POSITION marketKey = Inr n"
  using counts_lengths by (simp add: three_markets_def)

lemma counts_value:
  "snd (getAddressLengthByMarket counts_rpc three_markets pinned_block POSITION)
       = Inr [(''B'', 1500), (''C'', 3)]"
proof -
  have keys: "map fst three_markets = [''A'', ''B'', ''C'']"
    by (simp add: three_markets_def)
  show ?thesis
    by (simp add: getAddressLengthByMarket_def keys counts_lookup aggregate_def counts_data
        counts_decode Let_def)
qed

text \<open>The theorem at these markets: the result is \<open>{B: 1500, C: 3}\<close>.\<close>

theorem getAddressLengthByMarket_nonzero_witness:
  "map fst three_markets = [''A'', ''B'', ''C'']
   \<and> market_length counts_rpc three_markets pinned_block POSITION ''A'' = Inr 0
   \<and> market_length counts_rpc three_markets pinned_block POSITION ''B'' = Inr 1500
   \<and> market_length counts_rpc three_markets pinned_block POSITION ''C'' = Inr 3
   \<and> snd (getAddressLengthByMarket counts_rpc three_markets pinned_block POSITION)
       = Inr [(''B'', 1500), (''C'', 3)]"
proof -
  have keys: "map fst three_markets = [''A'', ''B'', ''C'']"
    by (simp add: three_markets_def)
  from getAddressLengthByMarket_nonzero [OF counts_all] keys counts_lengths counts_value
  show ?thesis
    by (intro conjI)
qed

subsection \<open>The entities\<close>

lemma entities_at_append_to:
  "entities_at (append_to k xs acc) marketKey
   = (if marketKey = k then entities_at acc k @ xs else entities_at acc marketKey)"
  by (simp add: entities_at_def append_to_def update_conv')

lemma entities_at_fold:
  "entities_at
     (fold (\<lambda>pair acc. case g pair of None \<Rightarrow> acc | Some x \<Rightarrow> append_to (snd pair) [x] acc)
        pairs acc) marketKey
   = entities_at acc marketKey
     @ map (the \<circ> g) (filter (\<lambda>pair. g pair \<noteq> None) (filter (\<lambda>pair. snd pair = marketKey) pairs))"
proof (induction pairs arbitrary: acc)
  case Nil
  then show ?case by simp
next
  case (Cons pair pairs)
  show ?case
    by (cases "g pair") (auto simp: Cons.IH entities_at_append_to)
qed

lemma position_of_pair_Inr:
  assumes "position_of_pair r markets block' pair = Inr p"
  shows "\<exists>m c data response.
           lookup_market markets (snd pair) = Inr m
           \<and> entity_call markets ''positions'' pair = Inr c
           \<and> aggregate_call r (block_number block') c = Inr data
           \<and> pair_data r markets block' ''positions'' pair = Inr data
           \<and> decode_position r data = Inr response
           \<and> build_position r block' (fst pair) response = Inr p"
  using assms
  by (cases pair)
    (auto simp: position_of_pair_def pair_data_def entity_call_def split: sum.splits)

lemma order_of_pair_Inr:
  assumes "order_of_pair r markets block' pair = Inr ord"
  shows "\<exists>m c data response.
           lookup_market markets (snd pair) = Inr m
           \<and> entity_call markets ''delayedOrders'' pair = Inr c
           \<and> aggregate_call r (block_number block') c = Inr data
           \<and> pair_data r markets block' ''delayedOrders'' pair = Inr data
           \<and> decode_delayedOrder r data = Inr response
           \<and> ord = (if raw_isOffchain response
                     then Some (build_order (fst pair) response) else None)"
  using assms
  by (cases pair)
    (auto simp: order_of_pair_def pair_data_def entity_call_def split: sum.splits)

lemma positions_forEach_fold:
  assumes "\<And>pair. pair \<in> set batch \<Longrightarrow> \<exists>p. position_of_pair r markets block' pair = Inr p"
  shows "positions_forEach r markets block'
           (zip (map (\<lambda>pair. projr (pair_data r markets block' ''positions'' pair)) batch) batch)
           acc
         = Inr (fold (\<lambda>pair acc.
                  case Some (projr (position_of_pair r markets block' pair)) of
                    None \<Rightarrow> acc
                  | Some x \<Rightarrow> append_to (snd pair) [x] acc) batch acc)"
  using assms
proof (induction batch arbitrary: acc)
  case Nil
  then show ?case by simp
next
  case (Cons pair batch)
  obtain address marketKey where pair: "pair = (address, marketKey)"
    by (cases pair)
  from Cons.prems [of pair] obtain p where p: "position_of_pair r markets block' pair = Inr p"
    by auto
  from position_of_pair_Inr [OF p] pair obtain m data response where
    "lookup_market markets marketKey = Inr m"
    "pair_data r markets block' ''positions'' pair = Inr data"
    "decode_position r data = Inr response"
    "build_position r block' address response = Inr p"
    by auto
  moreover have "positions_forEach r markets block'
           (zip (map (\<lambda>pair. projr (pair_data r markets block' ''positions'' pair)) batch) batch)
           acc'
         = Inr (fold (\<lambda>pair acc.
                  case Some (projr (position_of_pair r markets block' pair)) of
                    None \<Rightarrow> acc
                  | Some x \<Rightarrow> append_to (snd pair) [x] acc) batch acc')" for acc'
    using Cons.prems by (intro Cons.IH) simp
  ultimately show ?case
    using p pair by simp
qed

lemma orders_forEach_fold:
  assumes "\<And>pair. pair \<in> set batch \<Longrightarrow> \<exists>ord. order_of_pair r markets block' pair = Inr ord"
  shows "orders_forEach r markets
           (zip (map (\<lambda>pair. projr (pair_data r markets block' ''delayedOrders'' pair)) batch)
              batch)
           acc
         = Inr (fold (\<lambda>pair acc.
                  case projr (order_of_pair r markets block' pair) of
                    None \<Rightarrow> acc
                  | Some x \<Rightarrow> append_to (snd pair) [x] acc) batch acc)"
  using assms
proof (induction batch arbitrary: acc)
  case Nil
  then show ?case by simp
next
  case (Cons pair batch)
  obtain address marketKey where pair: "pair = (address, marketKey)"
    by (cases pair)
  from Cons.prems [of pair] obtain ord where
    ord: "order_of_pair r markets block' pair = Inr ord"
    by auto
  from order_of_pair_Inr [OF ord] pair obtain m data response where
    "lookup_market markets marketKey = Inr m"
    "pair_data r markets block' ''delayedOrders'' pair = Inr data"
    "decode_delayedOrder r data = Inr response"
    "ord = (if raw_isOffchain response then Some (build_order address response) else None)"
    by auto
  moreover have "orders_forEach r markets
           (zip (map (\<lambda>pair. projr (pair_data r markets block' ''delayedOrders'' pair)) batch)
              batch)
           acc'
         = Inr (fold (\<lambda>pair acc.
                  case projr (order_of_pair r markets block' pair) of
                    None \<Rightarrow> acc
                  | Some x \<Rightarrow> append_to (snd pair) [x] acc) batch acc')" for acc'
    using Cons.prems by (intro Cons.IH) simp
  ultimately show ?case
    using ord pair by simp
qed

text \<open>The calls and the return data of a batch whose pairs all resolve.\<close>

lemma batch_calls:
  assumes "\<And>pair. pair \<in> set batch \<Longrightarrow> \<exists>data. pair_data r markets block' fn pair = Inr data"
  shows "try_map (entity_call markets fn) batch
           = Inr (map (\<lambda>pair. projr (entity_call markets fn pair)) batch)"
    and "aggregate r (map (\<lambda>pair. projr (entity_call markets fn pair)) batch)
           (block_number block')
           = Inr (map (\<lambda>pair. projr (pair_data r markets block' fn pair)) batch)"
proof -
  have ok: "\<exists>c data. entity_call markets fn pair = Inr c
              \<and> aggregate_call r (block_number block') c = Inr data
              \<and> pair_data r markets block' fn pair = Inr data"
    if "pair \<in> set batch" for pair
    using assms [OF that] by (auto simp: pair_data_def split: sum.splits)
  show "try_map (entity_call markets fn) batch
           = Inr (map (\<lambda>pair. projr (entity_call markets fn pair)) batch)"
  proof (rule try_map_Inr)
    fix pair assume "pair \<in> set batch"
    from ok [OF this] show "entity_call markets fn pair = Inr (projr (entity_call markets fn pair))"
      by auto
  qed
  have "try_map (aggregate_call r (block_number block'))
          (map (\<lambda>pair. projr (entity_call markets fn pair)) batch)
        = Inr (map (\<lambda>pair. projr (pair_data r markets block' fn pair)) batch)"
    using ok
  proof (induction batch)
    case Nil
    then show ?case by simp
  next
    case (Cons pair batch)
    from Cons.prems [of pair] obtain c data where
      "entity_call markets fn pair = Inr c" "aggregate_call r (block_number block') c = Inr data"
      "pair_data r markets block' fn pair = Inr data"
      by auto
    moreover have "try_map (aggregate_call r (block_number block'))
          (map (\<lambda>pair. projr (entity_call markets fn pair)) batch)
        = Inr (map (\<lambda>pair. projr (pair_data r markets block' fn pair)) batch)"
      using Cons.prems by (intro Cons.IH) simp
    ultimately show ?case by simp
  qed
  then show "aggregate r (map (\<lambda>pair. projr (entity_call markets fn pair)) batch)
           (block_number block')
           = Inr (map (\<lambda>pair. projr (pair_data r markets block' fn pair)) batch)"
    by (simp add: aggregate_def)
qed

lemma getPositionsByAddresses_loop_fold:
  assumes "\<And>pair. pair \<in> set (concat batches) \<Longrightarrow>
             \<exists>p. position_of_pair r markets block' pair = Inr p"
  shows "getPositionsByAddresses_loop r markets block' batches requests acc
         = (requests @ map (map (\<lambda>pair. projr (entity_call markets ''positions'' pair))) batches,
            Inr (fold (\<lambda>pair acc.
                   case Some (projr (position_of_pair r markets block' pair)) of
                     None \<Rightarrow> acc
                   | Some x \<Rightarrow> append_to (snd pair) [x] acc) (concat batches) acc))"
  using assms
proof (induction batches arbitrary: requests acc)
  case Nil
  then show ?case by simp
next
  case (Cons batch batches)
  have each: "\<exists>p. position_of_pair r markets block' pair = Inr p" if "pair \<in> set batch" for pair
    using Cons.prems [of pair] that by simp
  then have data: "\<exists>data. pair_data r markets block' ''positions'' pair = Inr data"
    if "pair \<in> set batch" for pair
    using position_of_pair_Inr that by blast
  note calls = batch_calls [of batch r markets block' "''positions''", OF data]
  have rest: "getPositionsByAddresses_loop r markets block' batches requests' acc'
         = (requests' @ map (map (\<lambda>pair. projr (entity_call markets ''positions'' pair))) batches,
            Inr (fold (\<lambda>pair acc.
                   case Some (projr (position_of_pair r markets block' pair)) of
                     None \<Rightarrow> acc
                   | Some x \<Rightarrow> append_to (snd pair) [x] acc) (concat batches) acc'))"
    for requests' acc'
    using Cons.prems by (intro Cons.IH) simp
  show ?case
    by (simp add: calls positions_forEach_fold [OF each] rest)
qed

lemma getOrdersByAddresses_loop_fold:
  assumes "\<And>pair. pair \<in> set (concat batches) \<Longrightarrow>
             \<exists>ord. order_of_pair r markets block' pair = Inr ord"
  shows "getOrdersByAddresses_loop r markets block' batches requests acc
         = (requests
              @ map (map (\<lambda>pair. projr (entity_call markets ''delayedOrders'' pair))) batches,
            Inr (fold (\<lambda>pair acc.
                   case projr (order_of_pair r markets block' pair) of
                     None \<Rightarrow> acc
                   | Some x \<Rightarrow> append_to (snd pair) [x] acc) (concat batches) acc))"
  using assms
proof (induction batches arbitrary: requests acc)
  case Nil
  then show ?case by simp
next
  case (Cons batch batches)
  have each: "\<exists>ord. order_of_pair r markets block' pair = Inr ord" if "pair \<in> set batch" for pair
    using Cons.prems [of pair] that by simp
  then have data: "\<exists>data. pair_data r markets block' ''delayedOrders'' pair = Inr data"
    if "pair \<in> set batch" for pair
    using order_of_pair_Inr that by blast
  note calls = batch_calls [of batch r markets block' "''delayedOrders''", OF data]
  have rest: "getOrdersByAddresses_loop r markets block' batches requests' acc'
         = (requests'
              @ map (map (\<lambda>pair. projr (entity_call markets ''delayedOrders'' pair))) batches,
            Inr (fold (\<lambda>pair acc.
                   case projr (order_of_pair r markets block' pair) of
                     None \<Rightarrow> acc
                   | Some x \<Rightarrow> append_to (snd pair) [x] acc) (concat batches) acc'))"
    for requests' acc'
    using Cons.prems by (intro Cons.IH) simp
  show ?case
    by (simp add: calls orders_forEach_fold [OF each] rest)
qed

lemma requests_of_chunk:
  assumes "0 < limit"
  shows "length (map (map f) (chunk pairs limit)) = (length pairs + limit - 1) div limit"
    and "\<forall>batch \<in> set (map (map f) (chunk pairs limit)). length batch \<le> limit"
    and "concat (map (map f) (chunk pairs limit)) = map f pairs"
proof -
  show "length (map (map f) (chunk pairs limit)) = (length pairs + limit - 1) div limit"
    using assms by (simp add: length_chunk)
  show "\<forall>batch \<in> set (map (map f) (chunk pairs limit)). length batch \<le> limit"
    using set_chunk [OF assms] by fastforce
  have "concat (map (map f) (chunk pairs limit)) = map f (concat (chunk pairs limit))"
    by (simp add: map_concat)
  then show "concat (map (map f) (chunk pairs limit)) = map f pairs"
    using assms by (simp add: concat_chunk)
qed

lemma positions_fetch:
  assumes limit: "0 < limit"
    and ok: "\<forall>pair \<in> set (flattenedAddressesWithMarketKey addressesByMarket).
               \<exists>p. position_of_pair r markets block' pair = Inr p"
  shows "\<exists>requests result.
           getPositionsByAddresses_limit limit r addressesByMarket markets block'
             = (requests, Inr result)
           \<and> length requests
               = nat \<lceil>real (length (flattenedAddressesWithMarketKey addressesByMarket))
                       / real limit\<rceil>
           \<and> (\<forall>batch \<in> set requests. length batch \<le> limit)
           \<and> map Inr (concat requests)
               = map (entity_call markets ''positions'')
                   (flattenedAddressesWithMarketKey addressesByMarket)
           \<and> (\<forall>marketKey.
                 map Inr (entities_at result marketKey)
                 = map (position_of_pair r markets block')
                     (filter (\<lambda>pair. snd pair = marketKey)
                        (flattenedAddressesWithMarketKey addressesByMarket)))
           \<and> (\<forall>limit'. 0 < limit' \<longrightarrow>
                 snd (getPositionsByAddresses_limit limit' r addressesByMarket markets block')
                 = Inr result)"
proof -
  define pairs where "pairs = flattenedAddressesWithMarketKey addressesByMarket"
  define callf where "callf = (\<lambda>pair. projr (entity_call markets ''positions'' pair))"
  define ent where "ent = (\<lambda>pair. projr (position_of_pair r markets block' pair))"
  define result where
    "result = fold (\<lambda>pair acc. case Some (ent pair) of None \<Rightarrow> acc
                      | Some x \<Rightarrow> append_to (snd pair) [x] acc) pairs []"
  have each: "position_of_pair r markets block' pair = Inr (ent pair)
              \<and> entity_call markets ''positions'' pair = Inr (callf pair)"
    if "pair \<in> set pairs" for pair
  proof -
    from ok that obtain p where p: "position_of_pair r markets block' pair = Inr p"
      by (auto simp: pairs_def)
    from position_of_pair_Inr [OF p] p show ?thesis
      by (auto simp: ent_def callf_def)
  qed
  have run: "getPositionsByAddresses_limit n r addressesByMarket markets block'
             = (map (map callf) (chunk pairs n), Inr result)" if n: "0 < n" for n
  proof -
    have "\<exists>p. position_of_pair r markets block' pair = Inr p"
      if "pair \<in> set (concat (chunk pairs n))" for pair
      using that each n by (simp add: concat_chunk)
    from getPositionsByAddresses_loop_fold [of "chunk pairs n" r markets block' "[]" "[]", OF this]
    show ?thesis
      using n
      by (simp add: getPositionsByAddresses_limit_def pairs_def [symmetric] concat_chunk
          result_def ent_def callf_def)
  qed
  have calls: "map Inr (map callf pairs) = map (entity_call markets ''positions'') pairs"
    using each by simp
  have ents: "map Inr (entities_at result marketKey)
      = map (position_of_pair r markets block') (filter (\<lambda>pair. snd pair = marketKey) pairs)"
    for marketKey
  proof -
    have "entities_at result marketKey = map ent (filter (\<lambda>pair. snd pair = marketKey) pairs)"
      unfolding result_def
      using entities_at_fold [of "\<lambda>pair. Some (ent pair)" pairs "[]" marketKey]
      by (simp add: entities_at_def comp_def)
    then show ?thesis
      using each by simp
  qed
  show ?thesis
  proof (rule exI [of _ "map (map callf) (chunk pairs limit)"], rule exI [of _ result],
      fold pairs_def, intro conjI allI impI)
    show "getPositionsByAddresses_limit limit r addressesByMarket markets block'
            = (map (map callf) (chunk pairs limit), Inr result)"
      by (rule run [OF limit])
    show "length (map (map callf) (chunk pairs limit))
            = nat \<lceil>real (length pairs) / real limit\<rceil>"
      using requests_of_chunk(1) [OF limit, of callf pairs]
      by (simp only: ceiling_div [OF limit])
    show "\<forall>batch \<in> set (map (map callf) (chunk pairs limit)). length batch \<le> limit"
      by (rule requests_of_chunk [OF limit])
    show "map Inr (concat (map (map callf) (chunk pairs limit)))
            = map (entity_call markets ''positions'') pairs"
      using calls by (simp only: requests_of_chunk(3) [OF limit])
    show "map Inr (entities_at result marketKey)
            = map (position_of_pair r markets block') (filter (\<lambda>pair. snd pair = marketKey) pairs)"
      for marketKey
      by (rule ents)
    show "snd (getPositionsByAddresses_limit limit' r addressesByMarket markets block')
            = Inr result" if "0 < limit'" for limit'
      using run [OF that] by simp
  qed
qed

lemma kept_orders:
  assumes "\<And>pair. pair \<in> set pairs \<Longrightarrow> f pair = Inr (g pair)"
  shows "map (Inr \<circ> Some) (map (the \<circ> g) (filter (\<lambda>pair. g pair \<noteq> None) pairs))
         = filter (\<lambda>x. x \<noteq> Inr None) (map f pairs)"
  using assms by (induction pairs) auto

lemma orders_fetch:
  assumes limit: "0 < limit"
    and ok: "\<forall>pair \<in> set (flattenedAddressesWithMarketKey addressesByMarket).
               \<exists>ord. order_of_pair r markets block' pair = Inr ord"
  shows "\<exists>requests result.
           getOrdersByAddresses_limit limit r addressesByMarket markets block'
             = (requests, Inr result)
           \<and> length requests
               = nat \<lceil>real (length (flattenedAddressesWithMarketKey addressesByMarket))
                       / real limit\<rceil>
           \<and> (\<forall>batch \<in> set requests. length batch \<le> limit)
           \<and> map Inr (concat requests)
               = map (entity_call markets ''delayedOrders'')
                   (flattenedAddressesWithMarketKey addressesByMarket)
           \<and> (\<forall>marketKey.
                 map (Inr \<circ> Some) (entities_at result marketKey)
                 = filter (\<lambda>x. x \<noteq> Inr None)
                     (map (order_of_pair r markets block')
                        (filter (\<lambda>pair. snd pair = marketKey)
                           (flattenedAddressesWithMarketKey addressesByMarket))))
           \<and> (\<forall>limit'. 0 < limit' \<longrightarrow>
                 snd (getOrdersByAddresses_limit limit' r addressesByMarket markets block')
                 = Inr result)"
proof -
  define pairs where "pairs = flattenedAddressesWithMarketKey addressesByMarket"
  define callf where "callf = (\<lambda>pair. projr (entity_call markets ''delayedOrders'' pair))"
  define g where "g = (\<lambda>pair. projr (order_of_pair r markets block' pair))"
  define result where
    "result = fold (\<lambda>pair acc. case g pair of None \<Rightarrow> acc
                      | Some x \<Rightarrow> append_to (snd pair) [x] acc) pairs []"
  have each: "order_of_pair r markets block' pair = Inr (g pair)
              \<and> entity_call markets ''delayedOrders'' pair = Inr (callf pair)"
    if "pair \<in> set pairs" for pair
  proof -
    from ok that obtain ord where ord: "order_of_pair r markets block' pair = Inr ord"
      by (auto simp: pairs_def)
    from order_of_pair_Inr [OF ord] ord show ?thesis
      by (auto simp: g_def callf_def)
  qed
  have run: "getOrdersByAddresses_limit n r addressesByMarket markets block'
             = (map (map callf) (chunk pairs n), Inr result)" if n: "0 < n" for n
  proof -
    have "\<exists>ord. order_of_pair r markets block' pair = Inr ord"
      if "pair \<in> set (concat (chunk pairs n))" for pair
      using that each n by (simp add: concat_chunk)
    from getOrdersByAddresses_loop_fold [of "chunk pairs n" r markets block' "[]" "[]", OF this]
    show ?thesis
      using n
      by (simp add: getOrdersByAddresses_limit_def pairs_def [symmetric] concat_chunk
          result_def g_def callf_def)
  qed
  have calls: "map Inr (map callf pairs) = map (entity_call markets ''delayedOrders'') pairs"
    using each by simp
  have ents: "map (Inr \<circ> Some) (entities_at result marketKey)
      = filter (\<lambda>x. x \<noteq> Inr None)
          (map (order_of_pair r markets block') (filter (\<lambda>pair. snd pair = marketKey) pairs))"
    for marketKey
  proof -
    have "entities_at result marketKey
          = map (the \<circ> g) (filter (\<lambda>pair. g pair \<noteq> None)
              (filter (\<lambda>pair. snd pair = marketKey) pairs))"
      unfolding result_def
      using entities_at_fold [of g pairs "[]" marketKey]
      by (simp add: entities_at_def)
    moreover have "order_of_pair r markets block' pair = Inr (g pair)"
      if "pair \<in> set (filter (\<lambda>pair. snd pair = marketKey) pairs)" for pair
      using each that by simp
    ultimately show ?thesis
      using kept_orders [of "filter (\<lambda>pair. snd pair = marketKey) pairs"
          "order_of_pair r markets block'" g]
      by simp
  qed
  show ?thesis
  proof (rule exI [of _ "map (map callf) (chunk pairs limit)"], rule exI [of _ result],
      fold pairs_def, intro conjI allI impI)
    show "getOrdersByAddresses_limit limit r addressesByMarket markets block'
            = (map (map callf) (chunk pairs limit), Inr result)"
      by (rule run [OF limit])
    show "length (map (map callf) (chunk pairs limit))
            = nat \<lceil>real (length pairs) / real limit\<rceil>"
      using requests_of_chunk(1) [OF limit, of callf pairs]
      by (simp only: ceiling_div [OF limit])
    show "\<forall>batch \<in> set (map (map callf) (chunk pairs limit)). length batch \<le> limit"
      by (rule requests_of_chunk [OF limit])
    show "map Inr (concat (map (map callf) (chunk pairs limit)))
            = map (entity_call markets ''delayedOrders'') pairs"
      using calls by (simp only: requests_of_chunk(3) [OF limit])
    show "map (Inr \<circ> Some) (entities_at result marketKey)
      = filter (\<lambda>x. x \<noteq> Inr None)
          (map (order_of_pair r markets block') (filter (\<lambda>pair. snd pair = marketKey) pairs))"
      for marketKey
      by (rule ents)
    show "snd (getOrdersByAddresses_limit limit' r addressesByMarket markets block')
            = Inr result" if "0 < limit'" for limit'
      using run [OF that] by simp
  qed
qed

text \<open>
  Claim C6. Let the limit of a batch be above 0, and let every pair of an address and
  a market resolve: its market is known, its call succeeds at the pinned block and its
  data decodes. Then \<^verbatim>\<open>getPositionsByAddresses\<close> makes \<open>\<lceil>K / limit\<rceil>\<close> aggregate
  requests for \<open>K\<close> pairs, none of more than \<open>limit\<close> calls; the calls of the requests, in order, are the calls of the pairs, in
  order; and under each market the result lists, in the order of the pairs of that
  market, the position decoded from the data that the pair's own call returned, with
  the pair's address. The result is the same for every limit above 0.
  \<^verbatim>\<open>getOrdersByAddresses\<close> does the same, and lists under each market the orders of
  its pairs that are flagged off-chain.
\<close>

theorem entity_fetch_batches:
  assumes "0 < limit"
  shows "((\<forall>pair \<in> set (flattenedAddressesWithMarketKey addressesByMarket).
             \<exists>p. position_of_pair r markets block' pair = Inr p) \<longrightarrow>
          (\<exists>requests result.
             getPositionsByAddresses_limit limit r addressesByMarket markets block'
               = (requests, Inr result)
             \<and> length requests
                 = nat \<lceil>real (length (flattenedAddressesWithMarketKey addressesByMarket))
                       / real limit\<rceil>
             \<and> (\<forall>batch \<in> set requests. length batch \<le> limit)
             \<and> map Inr (concat requests)
                 = map (entity_call markets ''positions'')
                     (flattenedAddressesWithMarketKey addressesByMarket)
             \<and> (\<forall>marketKey.
                   map Inr (entities_at result marketKey)
                   = map (position_of_pair r markets block')
                       (filter (\<lambda>pair. snd pair = marketKey)
                          (flattenedAddressesWithMarketKey addressesByMarket)))
             \<and> (\<forall>limit'. 0 < limit' \<longrightarrow>
                   snd (getPositionsByAddresses_limit limit' r addressesByMarket markets block')
                   = Inr result)))
       \<and> ((\<forall>pair \<in> set (flattenedAddressesWithMarketKey addressesByMarket).
             \<exists>ord. order_of_pair r markets block' pair = Inr ord) \<longrightarrow>
          (\<exists>requests result.
             getOrdersByAddresses_limit limit r addressesByMarket markets block'
               = (requests, Inr result)
             \<and> length requests
                 = nat \<lceil>real (length (flattenedAddressesWithMarketKey addressesByMarket))
                       / real limit\<rceil>
             \<and> (\<forall>batch \<in> set requests. length batch \<le> limit)
             \<and> map Inr (concat requests)
                 = map (entity_call markets ''delayedOrders'')
                     (flattenedAddressesWithMarketKey addressesByMarket)
             \<and> (\<forall>marketKey.
                   map (Inr \<circ> Some) (entities_at result marketKey)
                   = filter (\<lambda>x. x \<noteq> Inr None)
                       (map (order_of_pair r markets block')
                          (filter (\<lambda>pair. snd pair = marketKey)
                             (flattenedAddressesWithMarketKey addressesByMarket))))
             \<and> (\<forall>limit'. 0 < limit' \<longrightarrow>
                   snd (getOrdersByAddresses_limit limit' r addressesByMarket markets block')
                   = Inr result)))"
proof (intro conjI impI)
  assume "\<forall>pair \<in> set (flattenedAddressesWithMarketKey addressesByMarket).
             \<exists>p. position_of_pair r markets block' pair = Inr p"
  with assms show "\<exists>requests result.
             getPositionsByAddresses_limit limit r addressesByMarket markets block'
               = (requests, Inr result)
             \<and> length requests
                 = nat \<lceil>real (length (flattenedAddressesWithMarketKey addressesByMarket))
                       / real limit\<rceil>
             \<and> (\<forall>batch \<in> set requests. length batch \<le> limit)
             \<and> map Inr (concat requests)
                 = map (entity_call markets ''positions'')
                     (flattenedAddressesWithMarketKey addressesByMarket)
             \<and> (\<forall>marketKey.
                   map Inr (entities_at result marketKey)
                   = map (position_of_pair r markets block')
                       (filter (\<lambda>pair. snd pair = marketKey)
                          (flattenedAddressesWithMarketKey addressesByMarket)))
             \<and> (\<forall>limit'. 0 < limit' \<longrightarrow>
                   snd (getPositionsByAddresses_limit limit' r addressesByMarket markets block')
                   = Inr result)"
    by (rule positions_fetch)
next
  assume "\<forall>pair \<in> set (flattenedAddressesWithMarketKey addressesByMarket).
             \<exists>ord. order_of_pair r markets block' pair = Inr ord"
  with assms show "\<exists>requests result.
             getOrdersByAddresses_limit limit r addressesByMarket markets block'
               = (requests, Inr result)
             \<and> length requests
                 = nat \<lceil>real (length (flattenedAddressesWithMarketKey addressesByMarket))
                       / real limit\<rceil>
             \<and> (\<forall>batch \<in> set requests. length batch \<le> limit)
             \<and> map Inr (concat requests)
                 = map (entity_call markets ''delayedOrders'')
                     (flattenedAddressesWithMarketKey addressesByMarket)
             \<and> (\<forall>marketKey.
                   map (Inr \<circ> Some) (entities_at result marketKey)
                   = filter (\<lambda>x. x \<noteq> Inr None)
                       (map (order_of_pair r markets block')
                          (filter (\<lambda>pair. snd pair = marketKey)
                             (flattenedAddressesWithMarketKey addressesByMarket))))
             \<and> (\<forall>limit'. 0 < limit' \<longrightarrow>
                   snd (getOrdersByAddresses_limit limit' r addressesByMarket markets block')
                   = Inr result)"
    by (rule orders_fetch)
qed

text \<open>
  Four addresses in two markets with a limit of 3: two requests, of three calls and of
  one. The order of \<open>0xb\<close> is not flagged off-chain.
\<close>

lemma four_pairs:
  "flattenedAddressesWithMarketKey four_addresses
     = [(''0xa'', ''B''), (''0xb'', ''B''), (''0xc'', ''B''), (''0xd'', ''C'')]"
  by (simp add: flattenedAddressesWithMarketKey_def four_addresses_def)

lemma four_pairs_chunk:
  "chunk [(''0xa'', ''B''), (''0xb'', ''B''), (''0xc'', ''B''), (''0xd'', ''C'')] 3
     = [[(''0xa'', ''B''), (''0xb'', ''B''), (''0xc'', ''B'')], [(''0xd'', ''C'')]]"
  by (simp add: chunk_step)

lemma entity_calls:
  "entity_call three_markets fn (address, ''B'')
     = Inr \<lparr>target = ''stateB'', callData = (fn, [ArgAddress address])\<rparr>"
  "entity_call three_markets fn (address, ''C'')
     = Inr \<lparr>target = ''stateC'', callData = (fn, [ArgAddress address])\<rparr>"
  by (simp_all add: entity_call_def counts_lookup)

lemma entity_data:
  "aggregate_call entity_rpc blockTag \<lparr>target = t, callData = (fn, [ArgAddress address])\<rparr>
     = Inr (t @ '':'' @ address)"
  by (simp add: entity_rpc_def)

lemma entity_decode:
  "decode_position entity_rpc data
     = Inr \<lparr>response_id = length data, response_size = 5, response_lastPrice = 2,
            response_margin = 1\<rparr>"
  "decode_delayedOrder entity_rpc data
     = Inr \<lparr>raw_isOffchain = (data \<noteq> ''stateB:0xb''), raw_executableAtTime = 20,
            raw_intentionTime = 10\<rparr>"
  "leverage_toNumber entity_rpc response = Inr 10"
  "size_toNumber entity_rpc size' = of_int size'"
  by (simp_all add: entity_rpc_def)

lemma four_positions:
  "getPositionsByAddresses_limit 3 entity_rpc four_addresses three_markets pinned_block
   = ([[\<lparr>target = ''stateB'', callData = (''positions'', [ArgAddress ''0xa''])\<rparr>,
        \<lparr>target = ''stateB'', callData = (''positions'', [ArgAddress ''0xb''])\<rparr>,
        \<lparr>target = ''stateB'', callData = (''positions'', [ArgAddress ''0xc''])\<rparr>],
       [\<lparr>target = ''stateC'', callData = (''positions'', [ArgAddress ''0xd''])\<rparr>]],
      Inr [(''B'',
            [\<lparr>position_account = ''0xa'', position_id = 10, position_size = 5, leverage = 10,
              liqPrice = - 1, liqPriceUpdatedTimestamp = 1700000000\<rparr>,
             \<lparr>position_account = ''0xb'', position_id = 10, position_size = 5, leverage = 10,
              liqPrice = - 1, liqPriceUpdatedTimestamp = 1700000000\<rparr>,
             \<lparr>position_account = ''0xc'', position_id = 10, position_size = 5, leverage = 10,
              liqPrice = - 1, liqPriceUpdatedTimestamp = 1700000000\<rparr>]),
           (''C'',
            [\<lparr>position_account = ''0xd'', position_id = 10, position_size = 5, leverage = 10,
              liqPrice = - 1, liqPriceUpdatedTimestamp = 1700000000\<rparr>])])"
  by (simp add: getPositionsByAddresses_limit_def four_pairs four_pairs_chunk entity_calls
      aggregate_def entity_data counts_lookup entity_decode build_position_def append_to_def
      entities_at_def pinned_block_def)

lemma four_orders:
  "getOrdersByAddresses_limit 3 entity_rpc four_addresses three_markets pinned_block
   = ([[\<lparr>target = ''stateB'', callData = (''delayedOrders'', [ArgAddress ''0xa''])\<rparr>,
        \<lparr>target = ''stateB'', callData = (''delayedOrders'', [ArgAddress ''0xb''])\<rparr>,
        \<lparr>target = ''stateB'', callData = (''delayedOrders'', [ArgAddress ''0xc''])\<rparr>],
       [\<lparr>target = ''stateC'', callData = (''delayedOrders'', [ArgAddress ''0xd''])\<rparr>]],
      Inr [(''B'',
            [\<lparr>order_account = ''0xa'', executableAtTime = 20, intentionTime = 10,
              executionFailures = 0\<rparr>,
             \<lparr>order_account = ''0xc'', executableAtTime = 20, intentionTime = 10,
              executionFailures = 0\<rparr>]),
           (''C'',
            [\<lparr>order_account = ''0xd'', executableAtTime = 20, intentionTime = 10,
              executionFailures = 0\<rparr>])])"
  by (simp add: getOrdersByAddresses_limit_def four_pairs four_pairs_chunk entity_calls
      aggregate_def entity_data counts_lookup entity_decode build_order_def append_to_def
      entities_at_def)

lemma four_resolve:
  "\<forall>pair \<in> set (flattenedAddressesWithMarketKey four_addresses).
     \<exists>p. position_of_pair entity_rpc three_markets pinned_block pair = Inr p"
  "\<forall>pair \<in> set (flattenedAddressesWithMarketKey four_addresses).
     \<exists>ord. order_of_pair entity_rpc three_markets pinned_block pair = Inr ord"
  by (simp_all add: four_pairs position_of_pair_def order_of_pair_def pair_data_def
      entity_calls entity_data entity_decode build_position_def)

text \<open>The theorem at these addresses.\<close>

theorem entity_fetch_batches_witness:
  "(0 :: nat) < 3
   \<and> map (isl \<circ> position_of_pair entity_rpc three_markets pinned_block)
        (flattenedAddressesWithMarketKey four_addresses) = [False, False, False, False]
   \<and> map (isl \<circ> order_of_pair entity_rpc three_markets pinned_block)
        (flattenedAddressesWithMarketKey four_addresses) = [False, False, False, False]
   \<and> length (flattenedAddressesWithMarketKey four_addresses) = 4
   \<and> length (fst (getPositionsByAddresses_limit 3 entity_rpc four_addresses three_markets
                     pinned_block)) = 2
   \<and> map (\<lambda>(marketKey, ps). (marketKey, map position_account ps))
        (projr (snd (getPositionsByAddresses_limit 3 entity_rpc four_addresses three_markets
                       pinned_block)))
       = [(''B'', [''0xa'', ''0xb'', ''0xc'']), (''C'', [''0xd''])]
   \<and> length (fst (getOrdersByAddresses_limit 3 entity_rpc four_addresses three_markets
                     pinned_block)) = 2
   \<and> map (\<lambda>(marketKey, os). (marketKey, map order_account os))
        (projr (snd (getOrdersByAddresses_limit 3 entity_rpc four_addresses three_markets
                       pinned_block)))
       = [(''B'', [''0xa'', ''0xc'']), (''C'', [''0xd''])]"
proof -
  have limit: "(0 :: nat) < 3" by simp
  note t = entity_fetch_batches
    [OF limit, of four_addresses entity_rpc three_markets pinned_block]
  have n: "length (flattenedAddressesWithMarketKey four_addresses) = 4"
    by (simp add: four_pairs)
  have p: "length (fst (getPositionsByAddresses_limit 3 entity_rpc four_addresses three_markets
                     pinned_block)) = 2"
    using t four_resolve(1) n by auto
  have ps: "map (\<lambda>(marketKey, ps). (marketKey, map position_account ps))
        (projr (snd (getPositionsByAddresses_limit 3 entity_rpc four_addresses three_markets
                       pinned_block)))
       = [(''B'', [''0xa'', ''0xb'', ''0xc'']), (''C'', [''0xd''])]"
    by (simp add: four_positions)
  have ord: "length (fst (getOrdersByAddresses_limit 3 entity_rpc four_addresses three_markets
                     pinned_block)) = 2"
    using t four_resolve(2) n by auto
  have os: "map (\<lambda>(marketKey, os). (marketKey, map order_account os))
        (projr (snd (getOrdersByAddresses_limit 3 entity_rpc four_addresses three_markets
                       pinned_block)))
       = [(''B'', [''0xa'', ''0xc'']), (''C'', [''0xd''])]"
    by (simp add: four_orders)
  have resolve:
    "map (isl \<circ> position_of_pair entity_rpc three_markets pinned_block)
        (flattenedAddressesWithMarketKey four_addresses) = [False, False, False, False]"
    "map (isl \<circ> order_of_pair entity_rpc three_markets pinned_block)
        (flattenedAddressesWithMarketKey four_addresses) = [False, False, False, False]"
    by (simp_all add: four_pairs position_of_pair_def order_of_pair_def pair_data_def
        entity_calls entity_data entity_decode build_position_def)
  from limit resolve n p ps ord os show ?thesis
    by (intro conjI)
qed

end
